theory Spec2Isabelle
  imports Main
begin

section \<open>Instances, errors and the state of a run\<close>

text \<open>
  A type is represented by its identity: \<^verbatim>\<open>TypeId::id<T>()\<close> is a function-local static of a
  template, so one type always has one identity and two types have two.
\<close>

type_synonym type_id = nat

text \<open>
  A \<^verbatim>\<open>std::shared_ptr<T>\<close> is the address of the object it shares, or \<open>None\<close> for the empty
  handle. An upcast of a handle keeps the object, so it keeps the address.
\<close>

type_synonym "instance" = "nat option"

text \<open>
  \<open>ComponentCreationException\<close> is the only exception the library throws itself.
  \<open>ProducerException x\<close> is the exception \<open>x\<close> that a caller-supplied callable raised, which
  every layer passes on unchanged. \<open>StackExhausted\<close> is the end of a recursion that the call
  stack cannot hold; \<open>UndefinedBehaviour\<close> marks \<^verbatim>\<open>back()\<close> on an empty vector and a dangling
  provider pointer.
\<close>

datatype error =
    ComponentCreationException
  | ProducerException nat
  | StackExhausted
  | UndefinedBehaviour

text \<open>
  The constructor parameters the argument resolver can serve: its conversion operator returns
  \<^verbatim>\<open>m_Injector->get<ConstructorArgument>()\<close>, a shared handle or a vector of shared handles, so
  a parameter is \<^verbatim>\<open>std::shared_ptr<P>\<close> or \<^verbatim>\<open>std::vector<std::shared_ptr<P>>\<close>.
\<close>

datatype ctor_param = SharedParam type_id | VectorParam type_id

datatype argument = SharedArgument "instance" | VectorArgument "instance list"

text \<open>
  A caller-supplied \<^verbatim>\<open>std::function<std::shared_ptr<T>()>\<close> takes no argument, so it is a
  transformer of the state its closure captured (\<open>'u\<close>) that returns a handle (\<open>Inr\<close>, the empty
  handle included) or raises an exception (\<open>Inl\<close>). It does not call into the injector it is
  registered with.
\<close>

type_synonym 'u callable = "'u \<Rightarrow> (nat + instance) \<times> 'u"

text \<open>
  The three factories that \<^verbatim>\<open>injector.hpp\<close> constructs, with what it passes to each: a handle,
  a callable, nothing.
\<close>

datatype 'u factory =
    ConstantFactory "instance"
  | FunctionFactory "'u callable"
  | ConstructorFactory type_id

text \<open>
  The two storages, each constructed from a factory; the singleton one has a cache slot,
  \<open>None\<close> until the first build. The two providers, each constructed from a storage.
\<close>

datatype 'u storage =
    InstanceStorage "'u factory"
  | SingletonInstanceStorage "'u factory" "instance option"

datatype 'u provider =
    NonCastingComponentProvider "'u storage"
  | CastingComponentProvider "'u storage"

text \<open>
  \<open>m_Registrations\<close> is the injector's only member: for each type identity the vector of
  \<^verbatim>\<open>std::unique_ptr<IComponentProvider>\<close>, here the addresses of the provider objects in
  \<open>providers\<close>. \<open>heap\<close> holds the objects made by \<^verbatim>\<open>std::make_shared\<close> (class and constructor
  arguments), an object's address being its index. \<open>user\<close> is the state captured by the
  caller's callables, and \<open>calls\<close> counts their invocations.
\<close>

record 'u state =
  m_Registrations :: "type_id \<rightharpoonup> nat list"
  providers :: "'u provider list"
  heap :: "(type_id \<times> argument list) list"
  user :: 'u
  calls :: nat

text \<open>A call into \<^verbatim>\<open>Injector&\<close> made by the argument resolver on behalf of a factory.\<close>

type_synonym 'u injector_ref = "ctor_param \<Rightarrow> 'u state \<Rightarrow> (error + argument) \<times> 'u state"

text \<open>The constructor signature of each class: compile-time information.\<close>

type_synonym ctors = "type_id \<Rightarrow> ctor_param list"

definition Injector :: "'u \<Rightarrow> 'u state" where
  "Injector u = \<lparr>m_Registrations = Map.empty, providers = [], heap = [], user = u, calls = 0\<rparr>"


section \<open>Factories\<close>

text \<open>
  Modelled from the spec: \<^verbatim>\<open>detail/factory.hpp\<close> is missing. The constant factory returns the
  caller's handle unchanged on every call.
\<close>

definition ConstantFactory_build :: "instance \<Rightarrow> 'u state \<Rightarrow> (error + instance) \<times> 'u state" where
  "ConstantFactory_build data s = (Inr data, s)"

text \<open>
  Modelled from the spec: \<^verbatim>\<open>detail/factory.hpp\<close> is missing. The function factory invokes the
  callable and returns whatever it returns, the empty handle included; an error that the
  callable raises propagates unchanged.
\<close>

definition FunctionFactory_build ::
  "'u callable \<Rightarrow> 'u state \<Rightarrow> (error + instance) \<times> 'u state" where
  "FunctionFactory_build fn s =
     (case fn (user s) of
        (Inl x, u) \<Rightarrow> (Inl (ProducerException x), s\<lparr>user := u, calls := Suc (calls s)\<rparr>)
      | (Inr r, u) \<Rightarrow> (Inr r, s\<lparr>user := u, calls := Suc (calls s)\<rparr>))"

text \<open>
  Modelled from the spec: \<^verbatim>\<open>detail/factory.hpp\<close> is missing. The resolution of the
  constructor parameters by the default-construction factory: each parameter is converted by
  the argument resolver, which calls back into the injector, and the first failure propagates.
  The parameters are resolved from left to right.
\<close>

fun resolve_arguments ::
  "'u injector_ref \<Rightarrow> ctor_param list \<Rightarrow> 'u state \<Rightarrow> (error + argument list) \<times> 'u state" where
  "resolve_arguments self [] s = (Inr [], s)"
| "resolve_arguments self (p # ps) s =
     (case self p s of
        (Inl e, s1) \<Rightarrow> (Inl e, s1)
      | (Inr a, s1) \<Rightarrow>
          (case resolve_arguments self ps s1 of
             (Inl e, s2) \<Rightarrow> (Inl e, s2)
           | (Inr as, s2) \<Rightarrow> (Inr (a # as), s2)))"

text \<open>
  Modelled from the spec: \<^verbatim>\<open>detail/factory.hpp\<close> is missing. The default-construction factory
  obtains a value for each constructor parameter through the argument resolver, then constructs
  the object; it fails with whatever the recursive resolution fails with.
\<close>

definition ConstructorFactory_build ::
  "ctors \<Rightarrow> 'u injector_ref \<Rightarrow> type_id \<Rightarrow> 'u state \<Rightarrow> (error + instance) \<times> 'u state" where
  "ConstructorFactory_build C self T s =
     (case resolve_arguments self (C T) s of
        (Inl e, s1) \<Rightarrow> (Inl e, s1)
      | (Inr as, s1) \<Rightarrow> (Inr (Some (length (heap s1))), s1\<lparr>heap := heap s1 @ [(T, as)]\<rparr>))"

fun Factory_build ::
  "ctors \<Rightarrow> 'u injector_ref \<Rightarrow> 'u factory \<Rightarrow> 'u state \<Rightarrow> (error + instance) \<times> 'u state" where
  "Factory_build C self (ConstantFactory data) s = ConstantFactory_build data s"
| "Factory_build C self (FunctionFactory fn) s = FunctionFactory_build fn s"
| "Factory_build C self (ConstructorFactory T) s = ConstructorFactory_build C self T s"


section \<open>Storages and providers\<close>

text \<open>The storage a provider owns and the factory a storage owns.\<close>

fun storage_of :: "'u provider \<Rightarrow> 'u storage" where
  "storage_of (NonCastingComponentProvider st) = st"
| "storage_of (CastingComponentProvider st) = st"

fun factory_of :: "'u storage \<Rightarrow> 'u factory" where
  "factory_of (InstanceStorage f) = f"
| "factory_of (SingletonInstanceStorage f c) = f"

text \<open>The assignment to the singleton storage's cache slot, on the provider that owns it.\<close>

fun store_instance :: "instance \<Rightarrow> 'u provider \<Rightarrow> 'u provider" where
  "store_instance v (NonCastingComponentProvider (SingletonInstanceStorage f c)) =
     NonCastingComponentProvider (SingletonInstanceStorage f (Some v))"
| "store_instance v (CastingComponentProvider (SingletonInstanceStorage f c)) =
     CastingComponentProvider (SingletonInstanceStorage f (Some v))"
| "store_instance v p = p"

text \<open>
  Modelled from the spec: \<^verbatim>\<open>detail/storage.hpp\<close> and \<^verbatim>\<open>detail/provider.hpp\<close> are missing.
  \<open>ComponentProvider_get\<close> is \<^verbatim>\<open>provider->get(injector)\<close> on the provider object at address \<open>a\<close>.
  Both providers return what their storage returns (the casting one as a handle of the base
  type). The transient storage invokes its factory on every call and never caches. The
  singleton storage invokes its factory on the first call, stores the result in its cache slot
  and returns it; every later call returns the cached value without invoking the factory,
  even if that value is empty. A failure of the factory leaves before anything is stored.
\<close>

definition ComponentProvider_get ::
  "ctors \<Rightarrow> 'u injector_ref \<Rightarrow> nat \<Rightarrow> 'u state \<Rightarrow> (error + instance) \<times> 'u state" where
  "ComponentProvider_get C self a s =
     (if a < length (providers s) then
        (case storage_of (providers s ! a) of
           InstanceStorage f \<Rightarrow> Factory_build C self f s
         | SingletonInstanceStorage f cache \<Rightarrow>
             (case cache of
                Some v \<Rightarrow> (Inr v, s)
              | None \<Rightarrow>
                  (case Factory_build C self f s of
                     (Inl e, s1) \<Rightarrow> (Inl e, s1)
                   | (Inr v, s1) \<Rightarrow>
                       (Inr v, s1\<lparr>providers :=
                                  (providers s1)[a := store_instance v (providers s1 ! a)]\<rparr>))))
      else (Inl UndefinedBehaviour, s))"


section \<open>The injector: retrieval\<close>

text \<open>
  The bodies of the retrieval functions, with \<open>self\<close> for the reference \<^verbatim>\<open>*this\<close> they hand to
  the provider or to the factory.
\<close>

definition contains :: "'u state \<Rightarrow> type_id \<Rightarrow> bool" where
  "contains s T = (m_Registrations s T \<noteq> None)"

definition get_unchecked_in ::
  "ctors \<Rightarrow> 'u injector_ref \<Rightarrow> type_id \<Rightarrow> 'u state \<Rightarrow> (error + instance) \<times> 'u state" where
  "get_unchecked_in C self T s =
     (case m_Registrations s T of
        Some ps \<Rightarrow>
          (if ps = [] then (Inl UndefinedBehaviour, s)
           else ComponentProvider_get C self (last ps) s)
      | None \<Rightarrow> ConstructorFactory_build C self T s)"

definition get_in ::
  "ctors \<Rightarrow> 'u injector_ref \<Rightarrow> type_id \<Rightarrow> 'u state \<Rightarrow> (error + instance) \<times> 'u state" where
  "get_in C self T s =
     (case get_unchecked_in C self T s of
        (Inl e, s1) \<Rightarrow> (Inl e, s1)
      | (Inr None, s1) \<Rightarrow> (Inl ComponentCreationException, s1)
      | (Inr (Some a), s1) \<Rightarrow> (Inr (Some a), s1))"

text \<open>
  The loop of \<^verbatim>\<open>get<std::vector<T>>\<close> over the provider pointers of the entry, in the order of
  the vector; \<open>acc\<close> is \<^verbatim>\<open>instances\<close>.
\<close>

fun get_providers ::
  "ctors \<Rightarrow> 'u injector_ref \<Rightarrow> nat list \<Rightarrow> instance list \<Rightarrow> 'u state \<Rightarrow>
   (error + instance list) \<times> 'u state" where
  "get_providers C self [] acc s = (Inr acc, s)"
| "get_providers C self (a # as) acc s =
     (case ComponentProvider_get C self a s of
        (Inl e, s1) \<Rightarrow> (Inl e, s1)
      | (Inr v, s1) \<Rightarrow> get_providers C self as (acc @ [v]) s1)"

definition get_vector_in ::
  "ctors \<Rightarrow> 'u injector_ref \<Rightarrow> type_id \<Rightarrow> 'u state \<Rightarrow> (error + instance list) \<times> 'u state" where
  "get_vector_in C self T s =
     (case m_Registrations s T of
        Some ps \<Rightarrow> get_providers C self ps [] s
      | None \<Rightarrow> (Inr [], s))"

text \<open>
  The argument resolver's conversion operator: \<^verbatim>\<open>m_Injector->get<ConstructorArgument>()\<close>, which
  for a shared handle reaches \<^verbatim>\<open>get<P>\<close> and for a vector of shared handles
  \<^verbatim>\<open>get<std::vector<P>>\<close>. The recursion through factory, resolver and injector is ordinary
  call-stack recursion; the first argument is the depth the stack still holds.
\<close>

primrec ConstructorArgumentResolver ::
  "ctors \<Rightarrow> nat \<Rightarrow> ctor_param \<Rightarrow> 'u state \<Rightarrow> (error + argument) \<times> 'u state" where
  "ConstructorArgumentResolver C 0 = (\<lambda>p s. (Inl StackExhausted, s))"
| "ConstructorArgumentResolver C (Suc n) = (\<lambda>p s.
     (case p of
        SharedParam P \<Rightarrow>
          (case get_in C (ConstructorArgumentResolver C n) P s of
             (Inl e, s1) \<Rightarrow> (Inl e, s1)
           | (Inr v, s1) \<Rightarrow> (Inr (SharedArgument v), s1))
      | VectorParam P \<Rightarrow>
          (case get_vector_in C (ConstructorArgumentResolver C n) P s of
             (Inl e, s1) \<Rightarrow> (Inl e, s1)
           | (Inr vs, s1) \<Rightarrow> (Inr (VectorArgument vs), s1))))"

text \<open>The public retrieval functions, for a call stack that holds \<open>n\<close> nested resolutions.\<close>

definition get_unchecked ::
  "ctors \<Rightarrow> nat \<Rightarrow> type_id \<Rightarrow> 'u state \<Rightarrow> (error + instance) \<times> 'u state" where
  "get_unchecked C n T s = get_unchecked_in C (ConstructorArgumentResolver C n) T s"

definition get ::
  "ctors \<Rightarrow> nat \<Rightarrow> type_id \<Rightarrow> 'u state \<Rightarrow> (error + instance) \<times> 'u state" where
  "get C n T s = get_in C (ConstructorArgumentResolver C n) T s"

definition get_shared ::
  "ctors \<Rightarrow> nat \<Rightarrow> type_id \<Rightarrow> 'u state \<Rightarrow> (error + instance) \<times> 'u state" where
  "get_shared C n T s = get C n T s"

definition get_vector ::
  "ctors \<Rightarrow> nat \<Rightarrow> type_id \<Rightarrow> 'u state \<Rightarrow> (error + instance list) \<times> 'u state" where
  "get_vector C n T s = get_vector_in C (ConstructorArgumentResolver C n) T s"

definition get_vector_shared ::
  "ctors \<Rightarrow> nat \<Rightarrow> type_id \<Rightarrow> 'u state \<Rightarrow> (error + instance list) \<times> 'u state" where
  "get_vector_shared C n T s = get_vector C n T s"


text \<open>\<open>k\<close> consecutive single-instance retrievals of \<open>T\<close>, with the result of each.\<close>

fun retrievals ::
  "ctors \<Rightarrow> nat \<Rightarrow> type_id \<Rightarrow> nat \<Rightarrow> 'u state \<Rightarrow> (error + instance) list \<times> 'u state" where
  "retrievals C n T 0 s = ([], s)"
| "retrievals C n T (Suc k) s =
     (case get C n T s of
        (r, s1) \<Rightarrow> (case retrievals C n T k s1 of (rs, s2) \<Rightarrow> (r # rs, s2)))"


section \<open>The injector: registration\<close>

text \<open>
  The two overloads of \<^verbatim>\<open>add_registration\<close>: the provider object is made, then
  \<^verbatim>\<open>m_Registrations[type_id<T>()].push_back\<close> appends its pointer, \<^verbatim>\<open>operator[]\<close> inserting an
  empty vector first where the key is absent. \<^verbatim>\<open>static_assert(std::is_base_of_v<Base, Derived>)\<close>
  is checked by the compiler.
\<close>

definition push_back_registration :: "type_id \<Rightarrow> 'u provider \<Rightarrow> 'u state \<Rightarrow> 'u state" where
  "push_back_registration T p s =
     s\<lparr>m_Registrations :=
         (m_Registrations s)
           (T \<mapsto> (case m_Registrations s T of None \<Rightarrow> [] | Some ps \<Rightarrow> ps) @ [length (providers s)]),
       providers := providers s @ [p]\<rparr>"

definition add_registration :: "type_id \<Rightarrow> 'u storage \<Rightarrow> 'u state \<Rightarrow> 'u state" where
  "add_registration T storage s = push_back_registration T (NonCastingComponentProvider storage) s"

definition add_registration_base :: "type_id \<Rightarrow> 'u storage \<Rightarrow> 'u state \<Rightarrow> 'u state" where
  "add_registration_base Base storage s =
     push_back_registration Base (CastingComponentProvider storage) s"

text \<open>
  The nine registration functions, in the order of the header. As the header stands,
  \<^verbatim>\<open>add<T>()\<close> and \<^verbatim>\<open>add<T>(fn)\<close> cannot be instantiated: their call
  \<^verbatim>\<open>add_registration<T>(std::move(storage))\<close> fits both overloads of \<^verbatim>\<open>add_registration\<close>
  equally. \<open>add\<close> and \<open>add_fn\<close> take the overload for one type, the binding their documentation
  describes. A client binds a type to itself with the two-type forms, \<^verbatim>\<open>add<T, T>()\<close> and
  \<^verbatim>\<open>add<T, T>(fn)\<close>.
\<close>

definition add :: "type_id \<Rightarrow> 'u state \<Rightarrow> 'u state" where
  "add T s = add_registration T (InstanceStorage (ConstructorFactory T)) s"

definition add_base :: "type_id \<Rightarrow> type_id \<Rightarrow> 'u state \<Rightarrow> 'u state" where
  "add_base Base Derived s =
     add_registration_base Base (InstanceStorage (ConstructorFactory Derived)) s"

definition add_singleton :: "type_id \<Rightarrow> 'u state \<Rightarrow> 'u state" where
  "add_singleton T s = add_registration T (SingletonInstanceStorage (ConstructorFactory T) None) s"

definition add_singleton_base :: "type_id \<Rightarrow> type_id \<Rightarrow> 'u state \<Rightarrow> 'u state" where
  "add_singleton_base Base Derived s =
     add_registration_base Base (SingletonInstanceStorage (ConstructorFactory Derived) None) s"

definition add_fn :: "type_id \<Rightarrow> 'u callable \<Rightarrow> 'u state \<Rightarrow> 'u state" where
  "add_fn T fn s = add_registration T (InstanceStorage (FunctionFactory fn)) s"

definition add_base_fn ::
  "type_id \<Rightarrow> type_id \<Rightarrow> 'u callable \<Rightarrow> 'u state \<Rightarrow> 'u state" where
  "add_base_fn Base Derived fn s =
     add_registration_base Base (InstanceStorage (FunctionFactory fn)) s"

definition add_singleton_fn :: "type_id \<Rightarrow> 'u callable \<Rightarrow> 'u state \<Rightarrow> 'u state" where
  "add_singleton_fn T fn s =
     add_registration T (SingletonInstanceStorage (FunctionFactory fn) None) s"

definition add_singleton_base_fn ::
  "type_id \<Rightarrow> type_id \<Rightarrow> 'u callable \<Rightarrow> 'u state \<Rightarrow> 'u state" where
  "add_singleton_base_fn Base Derived fn s =
     add_registration_base Base (SingletonInstanceStorage (FunctionFactory fn) None) s"

definition add_base_data :: "type_id \<Rightarrow> type_id \<Rightarrow> instance \<Rightarrow> 'u state \<Rightarrow> 'u state" where
  "add_base_data Base Derived data s =
     add_registration_base Base (InstanceStorage (ConstantFactory data)) s"

text \<open>
  The nine "only if absent" functions. \<^verbatim>\<open>try_add<T>()\<close> and \<^verbatim>\<open>try_add<T>(fn)\<close> go through
  \<^verbatim>\<open>add<T>()\<close> and \<^verbatim>\<open>add<T>(fn)\<close> and so cannot be instantiated either; neither can
  \<^verbatim>\<open>try_add_singleton<T>(fn)\<close>, whose \<^verbatim>\<open>std::function\<close> argument fits both overloads of
  \<^verbatim>\<open>add_singleton\<close> that take a callable. The definitions follow the one-type overload.
\<close>

definition try_add :: "type_id \<Rightarrow> 'u state \<Rightarrow> 'u state" where
  "try_add T s = (if \<not> contains s T then add T s else s)"

definition try_add_base :: "type_id \<Rightarrow> type_id \<Rightarrow> 'u state \<Rightarrow> 'u state" where
  "try_add_base Base Derived s = (if \<not> contains s Base then add_base Base Derived s else s)"

definition try_add_singleton :: "type_id \<Rightarrow> 'u state \<Rightarrow> 'u state" where
  "try_add_singleton T s = (if \<not> contains s T then add_singleton T s else s)"

definition try_add_singleton_base :: "type_id \<Rightarrow> type_id \<Rightarrow> 'u state \<Rightarrow> 'u state" where
  "try_add_singleton_base Base Derived s =
     (if \<not> contains s Base then add_singleton_base Base Derived s else s)"

definition try_add_fn :: "type_id \<Rightarrow> 'u callable \<Rightarrow> 'u state \<Rightarrow> 'u state" where
  "try_add_fn T fn s = (if \<not> contains s T then add_fn T fn s else s)"

definition try_add_base_fn ::
  "type_id \<Rightarrow> type_id \<Rightarrow> 'u callable \<Rightarrow> 'u state \<Rightarrow> 'u state" where
  "try_add_base_fn Base Derived fn s =
     (if \<not> contains s Base then add_base_fn Base Derived fn s else s)"

definition try_add_singleton_fn ::
  "type_id \<Rightarrow> 'u callable \<Rightarrow> 'u state \<Rightarrow> 'u state" where
  "try_add_singleton_fn T fn s = (if \<not> contains s T then add_singleton_fn T fn s else s)"

definition try_add_singleton_base_fn ::
  "type_id \<Rightarrow> type_id \<Rightarrow> 'u callable \<Rightarrow> 'u state \<Rightarrow> 'u state" where
  "try_add_singleton_base_fn Base Derived fn s =
     (if \<not> contains s Base then add_singleton_base_fn Base Derived fn s else s)"

definition try_add_base_data :: "type_id \<Rightarrow> type_id \<Rightarrow> instance \<Rightarrow> 'u state \<Rightarrow> 'u state" where
  "try_add_base_data Base Derived data s =
     (if \<not> contains s Base then add_base_data Base Derived data s else s)"



section \<open>Client programs\<close>

text \<open>A call a client makes on an injector, and a sequence of calls run from left to right.\<close>

datatype 'u call =
    Add type_id
  | Add_base type_id type_id
  | Add_singleton type_id
  | Add_singleton_base type_id type_id
  | Add_fn type_id "'u callable"
  | Add_base_fn type_id type_id "'u callable"
  | Add_singleton_fn type_id "'u callable"
  | Add_singleton_base_fn type_id type_id "'u callable"
  | Add_base_data type_id type_id "instance"
  | Try_add type_id
  | Try_add_base type_id type_id
  | Try_add_singleton type_id
  | Try_add_singleton_base type_id type_id
  | Try_add_fn type_id "'u callable"
  | Try_add_base_fn type_id type_id "'u callable"
  | Try_add_singleton_fn type_id "'u callable"
  | Try_add_singleton_base_fn type_id type_id "'u callable"
  | Try_add_base_data type_id type_id "instance"
  | Get type_id
  | Get_vector type_id

fun perform :: "ctors \<Rightarrow> nat \<Rightarrow> 'u call \<Rightarrow> 'u state \<Rightarrow> 'u state" where
  "perform C n (Add T) s = add T s"
| "perform C n (Add_base B D) s = add_base B D s"
| "perform C n (Add_singleton T) s = add_singleton T s"
| "perform C n (Add_singleton_base B D) s = add_singleton_base B D s"
| "perform C n (Add_fn T fn) s = add_fn T fn s"
| "perform C n (Add_base_fn B D fn) s = add_base_fn B D fn s"
| "perform C n (Add_singleton_fn T fn) s = add_singleton_fn T fn s"
| "perform C n (Add_singleton_base_fn B D fn) s = add_singleton_base_fn B D fn s"
| "perform C n (Add_base_data B D data) s = add_base_data B D data s"
| "perform C n (Try_add T) s = try_add T s"
| "perform C n (Try_add_base B D) s = try_add_base B D s"
| "perform C n (Try_add_singleton T) s = try_add_singleton T s"
| "perform C n (Try_add_singleton_base B D) s = try_add_singleton_base B D s"
| "perform C n (Try_add_fn T fn) s = try_add_fn T fn s"
| "perform C n (Try_add_base_fn B D fn) s = try_add_base_fn B D fn s"
| "perform C n (Try_add_singleton_fn T fn) s = try_add_singleton_fn T fn s"
| "perform C n (Try_add_singleton_base_fn B D fn) s = try_add_singleton_base_fn B D fn s"
| "perform C n (Try_add_base_data B D data) s = try_add_base_data B D data s"
| "perform C n (Get T) s = snd (get C n T s)"
| "perform C n (Get_vector T) s = snd (get_vector C n T s)"

fun run :: "ctors \<Rightarrow> nat \<Rightarrow> 'u call list \<Rightarrow> 'u state \<Rightarrow> 'u state" where
  "run C n [] s = s"
| "run C n (c # cs) s = run C n cs (perform C n c s)"

text \<open>The identity a registration call binds; a retrieval binds none.\<close>

fun bound_type :: "'u call \<Rightarrow> type_id option" where
  "bound_type (Add T) = Some T"
| "bound_type (Add_base B D) = Some B"
| "bound_type (Add_singleton T) = Some T"
| "bound_type (Add_singleton_base B D) = Some B"
| "bound_type (Add_fn T fn) = Some T"
| "bound_type (Add_base_fn B D fn) = Some B"
| "bound_type (Add_singleton_fn T fn) = Some T"
| "bound_type (Add_singleton_base_fn B D fn) = Some B"
| "bound_type (Add_base_data B D data) = Some B"
| "bound_type (Try_add T) = Some T"
| "bound_type (Try_add_base B D) = Some B"
| "bound_type (Try_add_singleton T) = Some T"
| "bound_type (Try_add_singleton_base B D) = Some B"
| "bound_type (Try_add_fn T fn) = Some T"
| "bound_type (Try_add_base_fn B D fn) = Some B"
| "bound_type (Try_add_singleton_fn T fn) = Some T"
| "bound_type (Try_add_singleton_base_fn B D fn) = Some B"
| "bound_type (Try_add_base_data B D data) = Some B"
| "bound_type (Get T) = None"
| "bound_type (Get_vector T) = None"


section \<open>Invariants of retrieval\<close>

fun is_singleton :: "'u storage \<Rightarrow> bool" where
  "is_singleton (InstanceStorage f) = False"
| "is_singleton (SingletonInstanceStorage f c) = True"

fun is_casting :: "'u provider \<Rightarrow> bool" where
  "is_casting (NonCastingComponentProvider st) = False"
| "is_casting (CastingComponentProvider st) = True"

text \<open>What a provider is bound to: everything but the content of a cache slot.\<close>

definition binding_of :: "'u provider \<Rightarrow> bool \<times> bool \<times> 'u factory" where
  "binding_of p = (is_casting p, is_singleton (storage_of p), factory_of (storage_of p))"

text \<open>
  \<open>evolves s s'\<close>: from \<open>s\<close> to \<open>s'\<close> the table and the bindings of the providers stay and
  the heap does not shrink.
\<close>

definition evolves :: "'u state \<Rightarrow> 'u state \<Rightarrow> bool" where
  "evolves s s' \<longleftrightarrow>
     m_Registrations s' = m_Registrations s \<and>
     map binding_of (providers s') = map binding_of (providers s) \<and>
     length (heap s) \<le> length (heap s')"

definition frames :: "'u injector_ref \<Rightarrow> bool" where
  "frames self \<longleftrightarrow> (\<forall>p s r s'. self p s = (r, s') \<longrightarrow> evolves s s')"

text \<open>
  Every entry of the table holds at least one pointer, and every pointer is to a live provider:
  what \<^verbatim>\<open>push_back\<close> after \<^verbatim>\<open>operator[]\<close> establishes and nothing undoes.
\<close>

definition well_formed :: "'u state \<Rightarrow> bool" where
  "well_formed s \<longleftrightarrow>
     (\<forall>T ps. m_Registrations s T = Some ps \<longrightarrow>
        ps \<noteq> [] \<and> (\<forall>a \<in> set ps. a < length (providers s)))"



section \<open>Example class tables\<close>

text \<open>Class 0 has the constructor \<^verbatim>\<open>(std::shared_ptr<C1>)\<close>; every other class has none.\<close>

definition needs_one :: ctors where
  "needs_one T = (if T = 0 then [SharedParam 1] else [])"

text \<open>
  Class 0 has the constructor \<^verbatim>\<open>(std::shared_ptr<C1>)\<close> and every other class
  \<^verbatim>\<open>(std::shared_ptr<C0>)\<close>: a dependency cycle.
\<close>

definition cyclic :: ctors where
  "cyclic T = (if T = 0 then [SharedParam 1] else [SharedParam 0])"

text \<open>Class 2 has the constructor \<^verbatim>\<open>(std::shared_ptr<C1>)\<close>; every other class has none.\<close>

definition derived_needs_one :: ctors where
  "derived_needs_one T = (if T = 2 then [SharedParam 1] else [])"


text \<open>No class has a constructor parameter.\<close>

definition no_params :: ctors where
  "no_params T = []"


section \<open>Reference functions for the statements\<close>

text \<open>The outcomes of \<open>k\<close> successive invocations of a callable, and the state it leaves.\<close>

fun invoke_n :: "'u callable \<Rightarrow> nat \<Rightarrow> 'u \<Rightarrow> (nat + instance) list \<times> 'u" where
  "invoke_n fn 0 u = ([], u)"
| "invoke_n fn (Suc k) u =
     (case fn u of (r, u1) \<Rightarrow> (case invoke_n fn k u1 of (rs, u2) \<Rightarrow> (r # rs, u2)))"

text \<open>
  The results of invoking each callable of a list once, from left to right, up to the first
  one that raises.
\<close>

fun invoke_all :: "'u callable list \<Rightarrow> 'u \<Rightarrow> (nat + instance list) \<times> 'u" where
  "invoke_all [] u = (Inr [], u)"
| "invoke_all (fn # fns) u =
     (case fn u of
        (Inl x, u1) \<Rightarrow> (Inl x, u1)
      | (Inr v, u1) \<Rightarrow>
          (case invoke_all fns u1 of
             (Inl x, u2) \<Rightarrow> (Inl x, u2)
           | (Inr vs, u2) \<Rightarrow> (Inr (v # vs), u2)))"

text \<open>What \<open>get\<close> makes of a produced instance, and of the outcome of a production.\<close>

definition checked :: "instance \<Rightarrow> error + instance" where
  "checked v = (case v of None \<Rightarrow> Inl ComponentCreationException | Some a \<Rightarrow> Inr (Some a))"

definition null_check :: "error + instance \<Rightarrow> error + instance" where
  "null_check r = (case r of Inl e \<Rightarrow> Inl e | Inr v \<Rightarrow> checked v)"

text \<open>What a retrieval through a function factory makes of the outcome of the callable.\<close>

definition delivered :: "nat + instance \<Rightarrow> error + instance" where
  "delivered r = (case r of Inl x \<Rightarrow> Inl (ProducerException x) | Inr v \<Rightarrow> checked v)"

text \<open>The outcomes of \<open>k\<close> successive builds of a factory, and the state they leave.\<close>

fun builds ::
  "ctors \<Rightarrow> 'u injector_ref \<Rightarrow> 'u factory \<Rightarrow> nat \<Rightarrow> 'u state \<Rightarrow>
   (error + instance) list \<times> 'u state" where
  "builds C self f 0 s = ([], s)"
| "builds C self f (Suc k) s =
     (case Factory_build C self f s of
        (r, s1) \<Rightarrow> (case builds C self f k s1 of (rs, s2) \<Rightarrow> (r # rs, s2)))"

text \<open>The objects that a sequence of retrievals returned.\<close>

fun returned :: "(error + instance) list \<Rightarrow> nat list" where
  "returned [] = []"
| "returned (Inr (Some a) # rs) = a # returned rs"
| "returned (r # rs) = returned rs"



text \<open>
  \<open>deepens self self'\<close>: whatever a call through \<open>self\<close> does without exhausting the stack, the
  same call through \<open>self'\<close> does too.
\<close>

definition deepens :: "'u injector_ref \<Rightarrow> 'u injector_ref \<Rightarrow> bool" where
  "deepens self self' \<longleftrightarrow>
     (\<forall>p s r s'. self p s = (r, s') \<longrightarrow> r \<noteq> Inl StackExhausted \<longrightarrow> self' p s = (r, s'))"


section \<open>The overloads of \<^verbatim>\<open>get\<close>\<close>

text \<open>
  The template argument of a call \<^verbatim>\<open>get<T>()\<close>: a class, \<^verbatim>\<open>const U\<close>, \<^verbatim>\<open>U&\<close>,
  \<^verbatim>\<open>std::shared_ptr<U>\<close>, \<^verbatim>\<open>std::vector<U>\<close>, and the two class templates of the standard
  library that the header names as types, \<^verbatim>\<open>std::remove_reference<U>\<close> and
  \<^verbatim>\<open>std::remove_const<U>\<close> (the trait classes themselves, not their member \<^verbatim>\<open>type\<close>).
\<close>

datatype cpp_type =
    Class_type type_id
  | Const_of cpp_type
  | Lvalue_reference cpp_type
  | Shared_ptr cpp_type
  | Std_vector cpp_type
  | Remove_reference cpp_type
  | Remove_const cpp_type

text \<open>
  Modelled from the spec: \<^verbatim>\<open>traits.hpp\<close> is missing. \<^verbatim>\<open>is_vector_v\<close> and \<^verbatim>\<open>is_shared_v\<close> tell
  the collection and the shared-handle forms of retrieval from the plain one: they hold of the
  instances of \<^verbatim>\<open>std::vector\<close> and of \<^verbatim>\<open>std::shared_ptr\<close>.
\<close>

fun is_vector_v :: "cpp_type \<Rightarrow> bool" where
  "is_vector_v (Std_vector V) = True"
| "is_vector_v T = False"

fun is_shared_v :: "cpp_type \<Rightarrow> bool" where
  "is_shared_v (Shared_ptr E) = True"
| "is_shared_v T = False"

text \<open>
  The traits of the standard library: a reference type is not const-qualified, and neither is
  a class.
\<close>

fun is_reference_v :: "cpp_type \<Rightarrow> bool" where
  "is_reference_v (Lvalue_reference U) = True"
| "is_reference_v T = False"

fun is_const_v :: "cpp_type \<Rightarrow> bool" where
  "is_const_v (Const_of U) = True"
| "is_const_v T = False"

text \<open>The member types \<^verbatim>\<open>T::value_type\<close> and \<^verbatim>\<open>T::element_type\<close>, where \<open>T\<close> has them.\<close>

fun value_type :: "cpp_type \<Rightarrow> cpp_type option" where
  "value_type (Std_vector V) = Some V"
| "value_type T = None"

fun element_type :: "cpp_type \<Rightarrow> cpp_type option" where
  "element_type (Shared_ptr E) = Some E"
| "element_type T = None"

text \<open>
  The five overloads of \<^verbatim>\<open>get\<close>, in the order of the header, each with the condition of its
  \<^verbatim>\<open>std::enable_if_t\<close>. The third one tests \<^verbatim>\<open>std::is_const_v<typename std::remove_reference<T>>\<close>.
\<close>

datatype overload = Overload_plain | Overload_shared_ptr | Overload_const_ref | Overload_vector | Overload_vector_shared_ptr

fun enabled :: "overload \<Rightarrow> cpp_type \<Rightarrow> bool" where
  "enabled Overload_plain T = (\<not> is_vector_v T \<and> \<not> is_shared_v T)"
| "enabled Overload_shared_ptr T = (\<not> is_vector_v T \<and> is_shared_v T)"
| "enabled Overload_const_ref T = (is_reference_v T \<and> is_const_v (Remove_reference T))"
| "enabled Overload_vector T =
     (is_vector_v T \<and> (case value_type T of Some V \<Rightarrow> \<not> is_shared_v V | None \<Rightarrow> False))"
| "enabled Overload_vector_shared_ptr T =
     (is_vector_v T \<and> (case value_type T of Some V \<Rightarrow> is_shared_v V | None \<Rightarrow> False))"

text \<open>The overloads that take part in the resolution of \<^verbatim>\<open>get<T>()\<close>.\<close>

definition viable :: "cpp_type \<Rightarrow> overload list" where
  "viable T = filter (\<lambda>ov. enabled ov T)
     [Overload_plain, Overload_shared_ptr, Overload_const_ref, Overload_vector, Overload_vector_shared_ptr]"

text \<open>
  The type an overload goes on with: the key of \<^verbatim>\<open>get_unchecked<T>\<close> or of the table lookup,
  or the template argument of the \<^verbatim>\<open>get\<close> it delegates to.
\<close>

fun requested :: "overload \<Rightarrow> cpp_type \<Rightarrow> cpp_type option" where
  "requested Overload_plain T = Some T"
| "requested Overload_shared_ptr T = element_type T"
| "requested Overload_const_ref T = Some (Remove_reference (Remove_const T))"
| "requested Overload_vector T = value_type T"
| "requested Overload_vector_shared_ptr T =
     (case value_type T of
        Some V \<Rightarrow> (case element_type V of Some E \<Rightarrow> Some (Std_vector E) | None \<Rightarrow> None)
      | None \<Rightarrow> None)"


section \<open>Frame lemmas\<close>

lemma evolves_refl [simp]: "evolves s s"
  by (simp add: evolves_def)

lemma evolves_trans: "evolves s s1 \<Longrightarrow> evolves s1 s2 \<Longrightarrow> evolves s s2"
  by (simp add: evolves_def)

lemma evolves_heap [simp]: "evolves s s1 \<Longrightarrow> evolves s (s1\<lparr>heap := heap s1 @ h\<rparr>)"
  by (simp add: evolves_def)

lemma evolves_user [simp]: "evolves s (s1\<lparr>user := u\<rparr>) = evolves s s1"
  by (simp add: evolves_def)

lemma evolves_calls [simp]: "evolves s (s1\<lparr>calls := c\<rparr>) = evolves s s1"
  by (simp add: evolves_def)

lemma binding_of_store_instance [simp]: "binding_of (store_instance v p) = binding_of p"
  by (cases "(v, p)" rule: store_instance.cases) (simp_all add: binding_of_def)

lemma evolves_store [simp]:
  "evolves s (s1\<lparr>providers := (providers s1)[a := store_instance v (providers s1 ! a)]\<rparr>)
     = evolves s s1"
proof -
  have "map binding_of ((providers s1)[a := store_instance v (providers s1 ! a)])
          = map binding_of (providers s1)"
    by (cases "a < length (providers s1)") (simp_all add: map_update list_update_same_conv list_update_beyond)
  then show ?thesis by (simp add: evolves_def)
qed


lemma framesD: "frames self \<Longrightarrow> self p s = (r, s') \<Longrightarrow> evolves s s'"
  by (auto simp: frames_def)

lemma resolve_arguments_frame:
  "frames self \<Longrightarrow> resolve_arguments self ps s = (r, s') \<Longrightarrow> evolves s s'"
proof (induction ps arbitrary: s r s')
  case Nil
  then show ?case by simp
next
  case (Cons p ps)
  obtain r1 s1 where p: "self p s = (r1, s1)" by (cases "self p s")
  with Cons.prems have s1: "evolves s s1" by (auto dest: framesD)
  show ?case
  proof (cases r1)
    case (Inl e)
    with Cons.prems p s1 show ?thesis by simp
  next
    case (Inr x)
    obtain r2 s2 where ps: "resolve_arguments self ps s1 = (r2, s2)"
      by (cases "resolve_arguments self ps s1")
    with Cons have "evolves s1 s2" by blast
    with s1 have "evolves s s2" by (rule evolves_trans)
    with Cons.prems p Inr ps show ?thesis by (auto split: sum.splits)
  qed
qed

lemma ConstructorFactory_build_frame:
  "frames self \<Longrightarrow> ConstructorFactory_build C self T s = (r, s') \<Longrightarrow> evolves s s'"
  by (auto simp: ConstructorFactory_build_def split: prod.splits sum.splits
      dest: resolve_arguments_frame)

lemma Factory_build_frame:
  "frames self \<Longrightarrow> Factory_build C self f s = (r, s') \<Longrightarrow> evolves s s'"
  by (cases f)
     (auto simp: ConstantFactory_build_def FunctionFactory_build_def
        split: prod.splits sum.splits dest: ConstructorFactory_build_frame)

lemma ComponentProvider_get_frame:
  "frames self \<Longrightarrow> ComponentProvider_get C self a s = (r, s') \<Longrightarrow> evolves s s'"
  by (auto simp: ComponentProvider_get_def
      split: if_splits storage.splits option.splits prod.splits sum.splits
      dest: Factory_build_frame)

lemma get_unchecked_in_frame:
  "frames self \<Longrightarrow> get_unchecked_in C self T s = (r, s') \<Longrightarrow> evolves s s'"
  by (auto simp: get_unchecked_in_def split: option.splits if_splits
      dest: ComponentProvider_get_frame ConstructorFactory_build_frame)

lemma get_in_frame:
  "frames self \<Longrightarrow> get_in C self T s = (r, s') \<Longrightarrow> evolves s s'"
  by (auto simp: get_in_def split: prod.splits sum.splits option.splits
      dest: get_unchecked_in_frame)

lemma get_providers_frame:
  "frames self \<Longrightarrow> get_providers C self as acc s = (r, s') \<Longrightarrow> evolves s s'"
proof (induction as arbitrary: acc s r s')
  case Nil
  then show ?case by simp
next
  case (Cons a as)
  obtain r1 s1 where a: "ComponentProvider_get C self a s = (r1, s1)"
    by (cases "ComponentProvider_get C self a s")
  with Cons.prems have s1: "evolves s s1" by (auto dest: ComponentProvider_get_frame)
  show ?case
  proof (cases r1)
    case (Inl e)
    with Cons.prems a s1 show ?thesis by simp
  next
    case (Inr v)
    with Cons.prems a have "get_providers C self as (acc @ [v]) s1 = (r, s')" by simp
    with Cons have "evolves s1 s'" by blast
    with s1 show ?thesis by (rule evolves_trans)
  qed
qed

lemma get_vector_in_frame:
  "frames self \<Longrightarrow> get_vector_in C self T s = (r, s') \<Longrightarrow> evolves s s'"
  by (auto simp: get_vector_in_def split: option.splits dest: get_providers_frame)

lemma ConstructorArgumentResolver_frames:
  "frames (ConstructorArgumentResolver C n :: 'u injector_ref)"
proof (induction n)
  case 0
  then show ?case by (simp add: frames_def)
next
  case (Suc n)
  show ?case
    unfolding frames_def
  proof (intro allI impI)
    fix p r and s s' :: "'u state"
    assume "ConstructorArgumentResolver C (Suc n) p s = (r, s')"
    then show "evolves s s'"
      using Suc
      by (cases p)
         (auto split: prod.splits sum.splits intro: get_in_frame get_vector_in_frame)
  qed
qed

lemma get_frame: "get C n T s = (r, s') \<Longrightarrow> evolves s s'"
  unfolding get_def by (rule get_in_frame [OF ConstructorArgumentResolver_frames])

lemma get_unchecked_frame: "get_unchecked C n T s = (r, s') \<Longrightarrow> evolves s s'"
  unfolding get_unchecked_def by (rule get_unchecked_in_frame [OF ConstructorArgumentResolver_frames])

lemma get_vector_frame: "get_vector C n T s = (r, s') \<Longrightarrow> evolves s s'"
  unfolding get_vector_def by (rule get_vector_in_frame [OF ConstructorArgumentResolver_frames])


lemma evolves_length:
  "evolves s s' \<Longrightarrow> length (providers s') = length (providers s)"
  unfolding evolves_def by (metis length_map)

lemma evolves_well_formed:
  "evolves s s' \<Longrightarrow> well_formed s \<Longrightarrow> well_formed s'"
  using evolves_length [of s s'] by (simp add: well_formed_def evolves_def)

lemma well_formed_Injector: "well_formed (Injector u)"
  by (simp add: well_formed_def Injector_def)

lemma well_formed_push_back:
  "well_formed s \<Longrightarrow> well_formed (push_back_registration T p s)"
  unfolding well_formed_def push_back_registration_def
  by (simp split: option.splits) (metis less_Suc_eq)












section \<open>Registration and the table\<close>

lemmas add_defs =
  add_def add_base_def add_singleton_def add_singleton_base_def add_fn_def add_base_fn_def
  add_singleton_fn_def add_singleton_base_fn_def add_base_data_def
  add_registration_def add_registration_base_def

lemmas try_add_defs =
  try_add_def try_add_base_def try_add_singleton_def try_add_singleton_base_def try_add_fn_def
  try_add_base_fn_def try_add_singleton_fn_def try_add_singleton_base_fn_def try_add_base_data_def

lemmas retrieval_defs =
  get_def get_unchecked_def get_vector_def get_shared_def get_vector_shared_def
  get_in_def get_unchecked_in_def get_vector_in_def
  ComponentProvider_get_def ConstructorFactory_build_def FunctionFactory_build_def
  ConstantFactory_build_def push_back_registration_def Injector_def contains_def

lemma contains_push_back:
  "contains (push_back_registration U p s) T \<longleftrightarrow> contains s T \<or> U = T"
  by (auto simp: contains_def push_back_registration_def)

lemma contains_evolves: "evolves s s' \<Longrightarrow> contains s' T = contains s T"
  by (simp add: contains_def evolves_def)

lemma perform_contains:
  "contains (perform C n c s) T \<longleftrightarrow> contains s T \<or> bound_type c = Some T"
proof (cases c)
  case (Get U)
  obtain r s' where "get C n U s = (r, s')" by (cases "get C n U s")
  with Get show ?thesis by (auto dest!: get_frame contains_evolves)
next
  case (Get_vector U)
  obtain r s' where "get_vector C n U s = (r, s')" by (cases "get_vector C n U s")
  with Get_vector show ?thesis by (auto dest!: get_vector_frame contains_evolves)
qed (auto simp: try_add_defs add_defs contains_push_back)

lemma perform_well_formed: "well_formed s \<Longrightarrow> well_formed (perform C n c s)"
proof (cases c)
  case (Get U)
  assume wf: "well_formed s"
  obtain r s' where "get C n U s = (r, s')" by (cases "get C n U s")
  with Get wf show ?thesis by (auto dest!: get_frame intro: evolves_well_formed)
next
  case (Get_vector U)
  assume wf: "well_formed s"
  obtain r s' where "get_vector C n U s = (r, s')" by (cases "get_vector C n U s")
  with Get_vector wf show ?thesis
    by (auto dest!: get_vector_frame intro: evolves_well_formed)
qed (auto simp: try_add_defs add_defs well_formed_push_back)

lemma run_contains:
  "contains (run C n cs s) T \<longleftrightarrow> contains s T \<or> (\<exists>c \<in> set cs. bound_type c = Some T)"
  by (induction cs arbitrary: s) (auto simp: perform_contains)

lemma run_well_formed: "well_formed s \<Longrightarrow> well_formed (run C n cs s)"
  by (induction cs arbitrary: s) (auto simp: perform_well_formed)

lemma contains_Injector: "\<not> contains (Injector u) T"
  by (simp add: contains_def Injector_def)

lemma well_formed_contains:
  "well_formed s \<Longrightarrow> contains s T \<longleftrightarrow> (\<exists>ps. m_Registrations s T = Some ps \<and> ps \<noteq> [])"
  by (auto simp: well_formed_def contains_def)

lemma get_unchecked_last:
  "m_Registrations s T = Some ps \<Longrightarrow> ps \<noteq> [] \<Longrightarrow>
   get_unchecked C n T s = ComponentProvider_get C (ConstructorArgumentResolver C n) (last ps) s"
  by (simp add: get_unchecked_def get_unchecked_in_def)

lemma get_null_check:
  "get C n T s =
     (case get_unchecked C n T s of
        (Inl e, s1) \<Rightarrow> (Inl e, s1)
      | (Inr None, s1) \<Rightarrow> (Inl ComponentCreationException, s1)
      | (Inr (Some a), s1) \<Rightarrow> (Inr (Some a), s1))"
  by (simp add: get_def get_unchecked_def get_in_def)


section \<open>The depth of the stack\<close>

lemma deepensD:
  "deepens self self' \<Longrightarrow> self p s = (r, s') \<Longrightarrow> r \<noteq> Inl StackExhausted \<Longrightarrow> self' p s = (r, s')"
  by (auto simp: deepens_def)

lemma deepens_refl: "deepens self self"
  by (simp add: deepens_def)

lemma deepens_trans: "deepens a b \<Longrightarrow> deepens b c \<Longrightarrow> deepens a c"
  by (auto simp: deepens_def)

lemma resolve_arguments_deepens:
  "deepens self self' \<Longrightarrow> resolve_arguments self ps s = (r, s') \<Longrightarrow> r \<noteq> Inl StackExhausted \<Longrightarrow>
   resolve_arguments self' ps s = (r, s')"
proof (induction ps arbitrary: s r s')
  case Nil
  then show ?case by simp
next
  case (Cons p ps)
  obtain r1 s1 where p: "self p s = (r1, s1)" by (cases "self p s")
  show ?case
  proof (cases r1)
    case (Inl e)
    with Cons.prems p have "r = Inl e" "s' = s1" "e \<noteq> StackExhausted" by auto
    with Cons.prems(1) p Inl have "self' p s = (Inl e, s1)" by (auto dest: deepensD)
    with \<open>r = Inl e\<close> \<open>s' = s1\<close> show ?thesis by simp
  next
    case (Inr a)
    with Cons.prems(1) p have p': "self' p s = (Inr a, s1)" by (auto dest: deepensD)
    obtain r2 s2 where ps: "resolve_arguments self ps s1 = (r2, s2)"
      by (cases "resolve_arguments self ps s1")
    with Cons.prems p Inr have "r2 \<noteq> Inl StackExhausted"
      by (auto split: sum.splits)
    with Cons.IH [OF Cons.prems(1) ps] have "resolve_arguments self' ps s1 = (r2, s2)" by simp
    with Cons.prems(2) p p' Inr ps show ?thesis by simp
  qed
qed

lemma ConstructorFactory_build_deepens:
  "deepens self self' \<Longrightarrow> ConstructorFactory_build C self T s = (r, s') \<Longrightarrow>
   r \<noteq> Inl StackExhausted \<Longrightarrow> ConstructorFactory_build C self' T s = (r, s')"
proof -
  assume d: "deepens self self'" and b: "ConstructorFactory_build C self T s = (r, s')"
    and r: "r \<noteq> Inl StackExhausted"
  obtain r0 s0 where a: "resolve_arguments self (C T) s = (r0, s0)"
    by (cases "resolve_arguments self (C T) s")
  with b r have "r0 \<noteq> Inl StackExhausted"
    by (auto simp: ConstructorFactory_build_def split: sum.splits)
  with d a have "resolve_arguments self' (C T) s = (r0, s0)" by (rule resolve_arguments_deepens)
  with a b show ?thesis by (simp add: ConstructorFactory_build_def)
qed

lemma Factory_build_deepens:
  "deepens self self' \<Longrightarrow> Factory_build C self f s = (r, s') \<Longrightarrow>
   r \<noteq> Inl StackExhausted \<Longrightarrow> Factory_build C self' f s = (r, s')"
  by (cases f) (auto dest: ConstructorFactory_build_deepens)

lemma ComponentProvider_get_deepens:
  "deepens self self' \<Longrightarrow> ComponentProvider_get C self a s = (r, s') \<Longrightarrow>
   r \<noteq> Inl StackExhausted \<Longrightarrow> ComponentProvider_get C self' a s = (r, s')"
proof -
  assume d: "deepens self self'" and g: "ComponentProvider_get C self a s = (r, s')"
    and r: "r \<noteq> Inl StackExhausted"
  show ?thesis
  proof (cases "a < length (providers s)")
    case False
    with g show ?thesis by (simp add: ComponentProvider_get_def)
  next
    case True
    show ?thesis
    proof (cases "storage_of (providers s ! a)")
      case (InstanceStorage f)
      with True g r d show ?thesis
        by (auto simp: ComponentProvider_get_def dest: Factory_build_deepens)
    next
      case (SingletonInstanceStorage f c)
      show ?thesis
      proof (cases c)
        case (Some v)
        with True g SingletonInstanceStorage show ?thesis by (simp add: ComponentProvider_get_def)
      next
        case None
        obtain r0 s0 where b: "Factory_build C self f s = (r0, s0)"
          by (cases "Factory_build C self f s")
        with True g SingletonInstanceStorage None r have "r0 \<noteq> Inl StackExhausted"
          by (auto simp: ComponentProvider_get_def split: sum.splits)
        with d b have "Factory_build C self' f s = (r0, s0)" by (rule Factory_build_deepens)
        with True g SingletonInstanceStorage None b show ?thesis
          by (simp add: ComponentProvider_get_def)
      qed
    qed
  qed
qed

lemma get_unchecked_in_deepens:
  "deepens self self' \<Longrightarrow> get_unchecked_in C self T s = (r, s') \<Longrightarrow>
   r \<noteq> Inl StackExhausted \<Longrightarrow> get_unchecked_in C self' T s = (r, s')"
  by (auto simp: get_unchecked_in_def split: option.splits if_splits
      dest: ComponentProvider_get_deepens ConstructorFactory_build_deepens)

lemma get_in_deepens:
  "deepens self self' \<Longrightarrow> get_in C self T s = (r, s') \<Longrightarrow>
   r \<noteq> Inl StackExhausted \<Longrightarrow> get_in C self' T s = (r, s')"
proof -
  assume d: "deepens self self'" and g: "get_in C self T s = (r, s')"
    and r: "r \<noteq> Inl StackExhausted"
  obtain r0 s0 where u: "get_unchecked_in C self T s = (r0, s0)"
    by (cases "get_unchecked_in C self T s")
  with g r have "r0 \<noteq> Inl StackExhausted"
    by (auto simp: get_in_def split: sum.splits option.splits)
  with d u have "get_unchecked_in C self' T s = (r0, s0)" by (rule get_unchecked_in_deepens)
  with u g show ?thesis by (simp add: get_in_def)
qed

lemma get_providers_deepens:
  "deepens self self' \<Longrightarrow> get_providers C self as acc s = (r, s') \<Longrightarrow>
   r \<noteq> Inl StackExhausted \<Longrightarrow> get_providers C self' as acc s = (r, s')"
proof (induction as arbitrary: acc s)
  case Nil
  then show ?case by simp
next
  case (Cons a as)
  obtain r1 s1 where a: "ComponentProvider_get C self a s = (r1, s1)"
    by (cases "ComponentProvider_get C self a s")
  show ?case
  proof (cases r1)
    case (Inl e)
    with Cons.prems a have "r = Inl e" "s' = s1" "e \<noteq> StackExhausted" by auto
    with Cons.prems(1) a Inl have "ComponentProvider_get C self' a s = (Inl e, s1)"
      by (auto dest: ComponentProvider_get_deepens)
    with \<open>r = Inl e\<close> \<open>s' = s1\<close> show ?thesis by simp
  next
    case (Inr v)
    with Cons.prems(1) a have a': "ComponentProvider_get C self' a s = (Inr v, s1)"
      by (auto dest: ComponentProvider_get_deepens)
    from Cons.prems(2) a Inr have "get_providers C self as (acc @ [v]) s1 = (r, s')" by simp
    from Cons.IH [OF Cons.prems(1) this Cons.prems(3)] a' show ?thesis by simp
  qed
qed

lemma get_vector_in_deepens:
  "deepens self self' \<Longrightarrow> get_vector_in C self T s = (r, s') \<Longrightarrow>
   r \<noteq> Inl StackExhausted \<Longrightarrow> get_vector_in C self' T s = (r, s')"
  by (auto simp: get_vector_in_def split: option.splits dest: get_providers_deepens)

lemma ConstructorArgumentResolver_deepens_Suc:
  "deepens (ConstructorArgumentResolver C n :: 'u injector_ref) (ConstructorArgumentResolver C (Suc n))"
proof (induction n)
  case 0
  then show ?case by (simp add: deepens_def)
next
  case (Suc n)
  show ?case
    unfolding deepens_def
  proof (intro allI impI)
    fix p r and s s' :: "'u state"
    assume g: "ConstructorArgumentResolver C (Suc n) p s = (r, s')" and r: "r \<noteq> Inl StackExhausted"
    show "ConstructorArgumentResolver C (Suc (Suc n)) p s = (r, s')"
    proof (cases p)
      case (SharedParam P)
      obtain r0 s0 where u: "get_in C (ConstructorArgumentResolver C n) P s = (r0, s0)"
        by (cases "get_in C (ConstructorArgumentResolver C n) P s")
      with g r SharedParam have "r0 \<noteq> Inl StackExhausted" by (auto split: sum.splits)
      with Suc u have "get_in C (ConstructorArgumentResolver C (Suc n)) P s = (r0, s0)"
        by (rule get_in_deepens)
      with g u SharedParam show ?thesis by simp
    next
      case (VectorParam P)
      obtain r0 s0 where u: "get_vector_in C (ConstructorArgumentResolver C n) P s = (r0, s0)"
        by (cases "get_vector_in C (ConstructorArgumentResolver C n) P s")
      with g r VectorParam have "r0 \<noteq> Inl StackExhausted" by (auto split: sum.splits)
      with Suc u have "get_vector_in C (ConstructorArgumentResolver C (Suc n)) P s = (r0, s0)"
        by (rule get_vector_in_deepens)
      with g u VectorParam show ?thesis by simp
    qed
  qed
qed

lemma ConstructorArgumentResolver_deepens:
  "deepens (ConstructorArgumentResolver C n :: 'u injector_ref) (ConstructorArgumentResolver C (n + k))"
proof (induction k)
  case 0
  then show ?case by (simp add: deepens_refl)
next
  case (Suc k)
  have "deepens (ConstructorArgumentResolver C n :: 'u injector_ref)
      (ConstructorArgumentResolver C (Suc (n + k)))"
    by (rule deepens_trans [OF Suc ConstructorArgumentResolver_deepens_Suc])
  then show ?case by (simp only: add_Suc_right)
qed


lemma get_unchecked_deeper:
  "get_unchecked C n T s = (r, s') \<Longrightarrow> r \<noteq> Inl StackExhausted \<Longrightarrow>
   get_unchecked C (n + k) T s = (r, s')"
  unfolding get_unchecked_def
  by (rule get_unchecked_in_deepens [OF ConstructorArgumentResolver_deepens])

lemma get_vector_deeper:
  "get_vector C n T s = (r, s') \<Longrightarrow> r \<noteq> Inl StackExhausted \<Longrightarrow>
   get_vector C (n + k) T s = (r, s')"
  unfolding get_vector_def
  by (rule get_vector_in_deepens [OF ConstructorArgumentResolver_deepens])


section \<open>Outcomes of a retrieval\<close>



text \<open>On the cyclic class table the resolution of a parameter ends the stack at every depth.\<close>

lemma resolver_cyclic:
  "m_Registrations s 0 = None \<Longrightarrow> m_Registrations s (Suc 0) = None \<Longrightarrow> P \<le> 1 \<Longrightarrow>
   ConstructorArgumentResolver cyclic n (SharedParam P) s = (Inl StackExhausted, s)"
proof (induction n arbitrary: P)
  case 0
  then show ?case by simp
next
  case (Suc n)
  from Suc.prems have "P = 0 \<or> P = 1" by auto
  then show ?case
    using Suc.IH [of 0] Suc.IH [of 1] Suc.prems
    by (auto simp: get_in_def get_unchecked_in_def ConstructorFactory_build_def cyclic_def)
qed

lemma get_cyclic_exhausts: "fst (get cyclic n 0 (Injector u)) = Inl StackExhausted"
  using resolver_cyclic [of "Injector u" 1 n]
  by (simp add: get_def get_in_def get_unchecked_in_def ConstructorFactory_build_def
      cyclic_def Injector_def)


section \<open>Lifetimes\<close>

lemma get_checked:
  "get_unchecked C n T s = (Inr v, s1) \<Longrightarrow> get C n T s = (checked v, s1)"
  by (simp add: get_null_check checked_def split: option.splits)

lemma binding_of_singleton:
  "binding_of p' = binding_of p \<Longrightarrow> storage_of p = SingletonInstanceStorage f c \<Longrightarrow>
   storage_of (store_instance v p') = SingletonInstanceStorage f (Some v)"
  by (cases "(v, p')" rule: store_instance.cases) (auto simp: binding_of_def)

lemma evolves_binding_of:
  "evolves s s' \<Longrightarrow> a < length (providers s) \<Longrightarrow>
   binding_of (providers s' ! a) = binding_of (providers s ! a)"
proof -
  assume e: "evolves s s'" and a: "a < length (providers s)"
  then have "map binding_of (providers s') ! a = map binding_of (providers s) ! a"
    by (simp add: evolves_def)
  with a evolves_length [OF e] show ?thesis by simp
qed

lemma Factory_build_evolves:
  "Factory_build C (ConstructorArgumentResolver C n) f s = (r, s') \<Longrightarrow> evolves s s'"
  by (rule Factory_build_frame [OF ConstructorArgumentResolver_frames])

lemma retrievals_cached:
  assumes "m_Registrations s T = Some ps" "ps \<noteq> []" "last ps < length (providers s)"
    and "storage_of (providers s ! last ps) = SingletonInstanceStorage f (Some v)"
  shows "retrievals C n T N s = (replicate N (checked v), s)"
proof -
  from assms have "get_unchecked C n T s = (Inr v, s)"
    by (simp add: get_unchecked_last ComponentProvider_get_def)
  then have g: "get C n T s = (checked v, s)" by (rule get_checked)
  show ?thesis by (induction N) (simp_all add: g)
qed

lemma get_unchecked_transient:
  "m_Registrations s T = Some ps \<Longrightarrow> ps \<noteq> [] \<Longrightarrow> last ps < length (providers s) \<Longrightarrow>
   storage_of (providers s ! last ps) = InstanceStorage f \<Longrightarrow>
   get_unchecked C n T s = Factory_build C (ConstructorArgumentResolver C n) f s"
  by (simp add: get_unchecked_last ComponentProvider_get_def)

lemma binding_of_transient:
  "binding_of p' = binding_of p \<Longrightarrow> storage_of p = InstanceStorage f \<Longrightarrow>
   storage_of p' = InstanceStorage f"
  by (cases "storage_of p'") (auto simp: binding_of_def)

lemma ConstructorFactory_build_fresh:
  assumes "frames self" and "ConstructorFactory_build C self D s = (Inr v, s1)"
  shows "\<exists>a. v = Some a \<and> length (heap s) \<le> a \<and> a < length (heap s1)"
proof -
  obtain r0 s0 where r: "resolve_arguments self (C D) s = (r0, s0)"
    by (cases "resolve_arguments self (C D) s")
  with assms(1) have "evolves s s0" by (rule resolve_arguments_frame)
  then have "length (heap s) \<le> length (heap s0)" by (simp add: evolves_def)
  with assms(2) r show ?thesis
    by (cases r0) (auto simp: ConstructorFactory_build_def)
qed

lemma retrievals_constructed:
  "m_Registrations s T = Some ps \<Longrightarrow> ps \<noteq> [] \<Longrightarrow> last ps < length (providers s) \<Longrightarrow>
   storage_of (providers s ! last ps) = InstanceStorage (ConstructorFactory D) \<Longrightarrow>
   retrievals C n T N s = (rs, s') \<Longrightarrow>
   (\<forall>a \<in> set (returned rs). length (heap s) \<le> a) \<and> distinct (returned rs)"
proof (induction N arbitrary: s rs s')
  case 0
  then show ?case by simp
next
  case (Suc N)
  obtain r s1 where g: "get C n T s = (r, s1)" by (cases "get C n T s")
  obtain rs1 s2 where rest: "retrievals C n T N s1 = (rs1, s2)"
    by (cases "retrievals C n T N s1")
  from g rest Suc.prems(5) have rs: "rs = r # rs1" by simp
  from g have ev: "evolves s s1" by (rule get_frame)
  have "storage_of (providers s1 ! last ps) = InstanceStorage (ConstructorFactory D)"
    using evolves_binding_of [OF ev Suc.prems(3)] Suc.prems(4) by (rule binding_of_transient)
  with Suc.prems(1-3) ev evolves_length [OF ev] rest
  have IH: "(\<forall>a \<in> set (returned rs1). length (heap s1) \<le> a) \<and> distinct (returned rs1)"
    by (intro Suc.IH) (simp_all add: evolves_def)
  from ev have mono: "length (heap s) \<le> length (heap s1)" by (simp add: evolves_def)
  show ?case
  proof (cases "\<exists>a. r = Inr (Some a)")
    case True
    then obtain a where a: "r = Inr (Some a)" by blast
    with g have "get_unchecked C n T s = (Inr (Some a), s1)"
      by (auto simp: get_null_check split: prod.splits sum.splits option.splits)
    with Suc.prems(1-4)
    have "ConstructorFactory_build C (ConstructorArgumentResolver C n) D s = (Inr (Some a), s1)"
      by (simp add: get_unchecked_transient)
    from ConstructorFactory_build_fresh [OF ConstructorArgumentResolver_frames this]
    have "length (heap s) \<le> a" "a < length (heap s1)" by auto
    with IH rs a mono show ?thesis by auto
  next
    case False
    then have "returned (r # rs1) = returned rs1"
      by (cases "(r # rs1)" rule: returned.cases) auto
    with IH rs mono show ?thesis by auto
  qed
qed

lemma singleton_first_build:
  assumes "m_Registrations s T = Some ps" and "ps \<noteq> []" and "last ps < length (providers s)"
    and "storage_of (providers s ! last ps) = SingletonInstanceStorage f None"
    and "Factory_build C (ConstructorArgumentResolver C n) f s = (Inr v, s1)"
  shows "retrievals C n T (Suc k) s =
           (replicate (Suc k) (checked v),
            s1\<lparr>providers := (providers s1)[last ps := store_instance v (providers s1 ! last ps)]\<rparr>)"
    and "storage_of (store_instance v (providers s1 ! last ps)) = SingletonInstanceStorage f (Some v)"
proof -
  let ?a = "last ps"
  let ?S = "s1\<lparr>providers := (providers s1)[?a := store_instance v (providers s1 ! ?a)]\<rparr>"
  from assms(5) have ev: "evolves s s1" by (rule Factory_build_evolves)
  then have len: "length (providers s1) = length (providers s)" by (rule evolves_length)
  from ev have reg: "m_Registrations s1 = m_Registrations s" by (simp add: evolves_def)
  show st: "storage_of (store_instance v (providers s1 ! ?a)) = SingletonInstanceStorage f (Some v)"
    using evolves_binding_of [OF ev assms(3)] assms(4) by (rule binding_of_singleton)
  from assms(1-5) have "get_unchecked C n T s = (Inr v, ?S)"
    by (simp add: get_unchecked_last ComponentProvider_get_def)
  then have g: "get C n T s = (checked v, ?S)" by (rule get_checked)
  have "retrievals C n T k ?S = (replicate k (checked v), ?S)"
    using assms(1-3) reg len st by (intro retrievals_cached [where ps = ps and f = f]) simp_all
  with g show "retrievals C n T (Suc k) s = (replicate (Suc k) (checked v), ?S)" by simp
qed

lemma registered_last:
  "m_Registrations (push_back_registration T p s) T =
     Some ((case m_Registrations s T of None \<Rightarrow> [] | Some ps \<Rightarrow> ps) @ [length (providers s)])"
  "providers (push_back_registration T p s) ! length (providers s) = p"
  "length (providers (push_back_registration T p s)) = Suc (length (providers s))"
  "user (push_back_registration T p s) = user s"
  "calls (push_back_registration T p s) = calls s"
  by (simp_all add: push_back_registration_def)


lemma get_null_checked:
  "get C n T s = (case get_unchecked C n T s of (r, s1) \<Rightarrow> (null_check r, s1))"
  by (simp add: get_null_check null_check_def checked_def split: prod.splits sum.splits option.splits)

lemma singleton_failed:
  assumes "m_Registrations s T = Some ps" and "ps \<noteq> []" and "last ps < length (providers s)"
    and "storage_of (providers s ! last ps) = SingletonInstanceStorage f None"
    and "Factory_build C (ConstructorArgumentResolver C n) f s = (Inl e, s1)"
  shows "get C n T s = (Inl e, s1)"
  using assms by (simp add: get_null_check get_unchecked_last ComponentProvider_get_def)

lemma singleton_registered:
  assumes "storage_of p = SingletonInstanceStorage f None"
    and "Factory_build C (ConstructorArgumentResolver C n) f (push_back_registration T p s) = (Inr v, s1)"
  shows "retrievals C n T (Suc k) (push_back_registration T p s) =
           (replicate (Suc k) (checked v),
            s1\<lparr>providers := (providers s1)[length (providers s) :=
               store_instance v (providers s1 ! length (providers s))]\<rparr>)"
proof -
  let ?ps = "(case m_Registrations s T of None \<Rightarrow> [] | Some ps \<Rightarrow> ps) @ [length (providers s)]"
  have "retrievals C n T (Suc k) (push_back_registration T p s) =
           (replicate (Suc k) (checked v),
            s1\<lparr>providers := (providers s1)[last ?ps :=
               store_instance v (providers s1 ! last ?ps)]\<rparr>)"
    using assms by (intro singleton_first_build(1) [where f = f]) (simp_all add: registered_last)
  then show ?thesis by simp
qed

lemma singleton_registered_failed:
  assumes "storage_of p = SingletonInstanceStorage f None"
    and "Factory_build C (ConstructorArgumentResolver C n) f (push_back_registration T p s) = (Inl e, s1)"
  shows "get C n T (push_back_registration T p s) = (Inl e, s1)"
  using assms
  by (intro singleton_failed [where f = f and
        ps = "(case m_Registrations s T of None \<Rightarrow> [] | Some ps \<Rightarrow> ps) @ [length (providers s)]"])
     (simp_all add: registered_last)

lemma retrievals_transient:
  "m_Registrations s T = Some ps \<Longrightarrow> ps \<noteq> [] \<Longrightarrow> last ps < length (providers s) \<Longrightarrow>
   storage_of (providers s ! last ps) = InstanceStorage f \<Longrightarrow>
   retrievals C n T N s =
     (map null_check (fst (builds C (ConstructorArgumentResolver C n) f N s)),
      snd (builds C (ConstructorArgumentResolver C n) f N s))"
proof (induction N arbitrary: s)
  case 0
  then show ?case by simp
next
  case (Suc N)
  obtain r s1 where b: "Factory_build C (ConstructorArgumentResolver C n) f s = (r, s1)"
    by (cases "Factory_build C (ConstructorArgumentResolver C n) f s")
  with Suc.prems have g: "get C n T s = (null_check r, s1)"
    by (simp add: get_null_checked get_unchecked_transient)
  from b have ev: "evolves s s1" by (rule Factory_build_evolves)
  have "storage_of (providers s1 ! last ps) = InstanceStorage f"
    using evolves_binding_of [OF ev Suc.prems(3)] Suc.prems(4) by (rule binding_of_transient)
  with Suc.prems(1-3) ev evolves_length [OF ev]
  have "retrievals C n T N s1 =
     (map null_check (fst (builds C (ConstructorArgumentResolver C n) f N s1)),
      snd (builds C (ConstructorArgumentResolver C n) f N s1))"
    by (intro Suc.IH) (simp_all add: evolves_def)
  with g b show ?case by (simp split: prod.splits)
qed

lemma retrievals_length: "length (fst (retrievals C n T N s)) = N"
  by (induction N arbitrary: s) (simp, auto split: prod.splits, metis fst_conv)

lemma null_check_Inr [simp]: "null_check (Inr v) = checked v"
  by (simp add: null_check_def)

lemma builds_callable:
  "builds C self (FunctionFactory fn) N s =
     (map (\<lambda>r. case r of Inl x \<Rightarrow> Inl (ProducerException x) | Inr v \<Rightarrow> Inr v)
        (fst (invoke_n fn N (user s))),
      s\<lparr>user := snd (invoke_n fn N (user s)), calls := calls s + N\<rparr>)"
proof (induction N arbitrary: s)
  case 0
  then show ?case by simp
next
  case (Suc N)
  obtain r u where fn: "fn (user s) = (r, u)" by (cases "fn (user s)")
  show ?case
    by (cases r) (simp_all add: FunctionFactory_build_def fn Suc split: prod.splits)
qed

lemma builds_constant: "builds C self (ConstantFactory d) N s = (replicate N (Inr d), s)"
  by (induction N) (simp_all add: ConstantFactory_build_def)

lemma builds_default:
  "C D = [] \<Longrightarrow>
   builds C self (ConstructorFactory D) N s =
     (map (\<lambda>i. Inr (Some (length (heap s) + i))) [0..<N],
      s\<lparr>heap := heap s @ replicate N (D, [])\<rparr>)"
proof (induction N arbitrary: s)
  case 0
  then show ?case by simp
next
  case (Suc N)
  have m: "map (\<lambda>i. Inr (Some (length (heap s) + i))) [0..<Suc N] =
      Inr (Some (length (heap s))) # map (\<lambda>i. Inr (Some (Suc (length (heap s) + i)))) [0..<N]"
    by (simp add: upt_rec [of 0] map_Suc_upt [symmetric] del: upt_Suc)
  from Suc show ?case
    by (simp add: ConstructorFactory_build_def m replicate_app_Cons_same del: upt_Suc)
qed

lemma delivered_eq:
  "null_check (case r of Inl x \<Rightarrow> Inl (ProducerException x) | Inr v \<Rightarrow> Inr v) = delivered r"
  by (simp add: null_check_def delivered_def split: sum.splits)

lemma inj_delivered: "inj delivered"
  by (auto simp: inj_on_def delivered_def checked_def split: sum.splits option.splits)

lemma retrievals_transient_registered:
  assumes "storage_of p = InstanceStorage f"
  shows "retrievals C n T N (push_back_registration T p s) =
     (map null_check
        (fst (builds C (ConstructorArgumentResolver C n) f N (push_back_registration T p s))),
      snd (builds C (ConstructorArgumentResolver C n) f N (push_back_registration T p s)))"
  using assms
  by (intro retrievals_transient [where
        ps = "(case m_Registrations s T of None \<Rightarrow> [] | Some ps \<Rightarrow> ps) @ [length (providers s)]"])
     (simp_all add: registered_last)

lemma heap_push_back: "heap (push_back_registration T p s) = heap s"
  by (simp add: push_back_registration_def)

lemma map_delivered:
  "map null_check (map (\<lambda>r. case r of Inl x \<Rightarrow> Inl (ProducerException x) | Inr v \<Rightarrow> Inr v) rs)
     = map delivered rs"
  by (simp add: delivered_eq)


section \<open>Collection retrieval\<close>

lemma get_providers_acc:
  "get_providers C self as acc s =
     (case get_providers C self as [] s of
        (Inl e, s1) \<Rightarrow> (Inl e, s1)
      | (Inr vs, s1) \<Rightarrow> (Inr (acc @ vs), s1))"
proof (induction as arbitrary: acc s)
  case Nil
  then show ?case by simp
next
  case (Cons a as)
  obtain r1 s1 where a: "ComponentProvider_get C self a s = (r1, s1)"
    by (cases "ComponentProvider_get C self a s")
  show ?case
  proof (cases r1)
    case (Inl e)
    with a show ?thesis by simp
  next
    case (Inr v)
    from Cons.IH [of "acc @ [v]" s1] Cons.IH [of "[v]" s1] a Inr show ?thesis
      by (simp split: prod.splits sum.splits)
  qed
qed

lemma get_providers_snoc:
  "get_providers C self (as @ [a]) [] s =
     (case get_providers C self as [] s of
        (Inl e, s1) \<Rightarrow> (Inl e, s1)
      | (Inr vs, s1) \<Rightarrow>
          (case ComponentProvider_get C self a s1 of
             (Inl e, s2) \<Rightarrow> (Inl e, s2)
           | (Inr v, s2) \<Rightarrow> (Inr (vs @ [v]), s2)))"
proof (induction as arbitrary: s)
  case Nil
  then show ?case by (simp split: prod.splits sum.splits)
next
  case (Cons b as)
  obtain r1 s1 where b: "ComponentProvider_get C self b s = (r1, s1)"
    by (cases "ComponentProvider_get C self b s")
  show ?case
  proof (cases r1)
    case (Inl e)
    with b show ?thesis by simp
  next
    case (Inr v)
    have l: "get_providers C self ((b # as) @ [a]) [] s =
      (case get_providers C self (as @ [a]) [] s1 of
        (Inl e, s2) \<Rightarrow> (Inl e, s2) | (Inr vs, s2) \<Rightarrow> (Inr (v # vs), s2))"
      using b Inr get_providers_acc [of C self "as @ [a]" "[v]" s1]
      by (simp split: prod.splits sum.splits)
    have r: "get_providers C self (b # as) [] s =
      (case get_providers C self as [] s1 of
        (Inl e, s2) \<Rightarrow> (Inl e, s2) | (Inr vs, s2) \<Rightarrow> (Inr (v # vs), s2))"
      using b Inr get_providers_acc [of C self as "[v]" s1]
      by (simp split: prod.splits sum.splits)
    show ?thesis
      unfolding l r Cons.IH [of s1]
      by (simp split: prod.splits sum.splits)
  qed
qed

lemma get_providers_success:
  "get_providers C self as [] s = (Inr vs, s') \<Longrightarrow>
   length vs = length as \<and>
   (\<forall>i < length as.
      ComponentProvider_get C self (as ! i) (snd (get_providers C self (take i as) [] s)) =
        (Inr (vs ! i), snd (get_providers C self (take (Suc i) as) [] s)))"
proof (induction as arbitrary: vs s' rule: rev_induct)
  case Nil
  then show ?case by simp
next
  case (snoc a as)
  obtain r0 s0 where p: "get_providers C self as [] s = (r0, s0)"
    by (cases "get_providers C self as [] s")
  from snoc.prems p obtain vs0 where r0: "r0 = Inr vs0"
    by (cases r0) (auto simp: get_providers_snoc)
  obtain r1 s1 where a: "ComponentProvider_get C self a s0 = (r1, s1)"
    by (cases "ComponentProvider_get C self a s0")
  from snoc.prems p r0 a obtain v where r1: "r1 = Inr v" and vs: "vs = vs0 @ [v]" and s': "s' = s1"
    by (cases r1) (auto simp: get_providers_snoc)
  from snoc.IH [of vs0 s0] p r0
  have IH: "length vs0 = length as"
    "\<And>i. i < length as \<Longrightarrow>
      ComponentProvider_get C self (as ! i) (snd (get_providers C self (take i as) [] s)) =
        (Inr (vs0 ! i), snd (get_providers C self (take (Suc i) as) [] s))"
    by simp_all
  show ?case
  proof (intro conjI allI impI)
    show "length vs = length (as @ [a])" using IH(1) vs by simp
  next
    fix i assume i: "i < length (as @ [a])"
    show "ComponentProvider_get C self ((as @ [a]) ! i)
            (snd (get_providers C self (take i (as @ [a])) [] s)) =
          (Inr (vs ! i), snd (get_providers C self (take (Suc i) (as @ [a])) [] s))"
    proof (cases "i < length as")
      case True
      then have "Suc i \<le> length as" by simp
      with True IH(2) [OF True] IH(1) vs show ?thesis
        by (simp add: nth_append)
    next
      case False
      with i have i': "i = length as" by simp
      from snoc.prems a r1 p r0 IH(1) vs s' show ?thesis
        by (simp add: i' nth_append)
    qed
  qed
qed

lemma get_providers_failure:
  "get_providers C self as [] s = (Inl e, s') \<Longrightarrow>
   \<exists>j < length as. \<exists>vs.
     fst (get_providers C self (take j as) [] s) = Inr vs \<and>
     ComponentProvider_get C self (as ! j) (snd (get_providers C self (take j as) [] s)) = (Inl e, s')"
proof (induction as arbitrary: s' rule: rev_induct)
  case Nil
  then show ?case by simp
next
  case (snoc a as)
  obtain r0 s0 where p: "get_providers C self as [] s = (r0, s0)"
    by (cases "get_providers C self as [] s")
  show ?case
  proof (cases r0)
    case (Inl e0)
    with snoc.prems p have "e0 = e" "s0 = s'" by (auto simp: get_providers_snoc)
    with snoc.IH [of s'] p Inl obtain j vs where j: "j < length as"
      "fst (get_providers C self (take j as) [] s) = Inr vs"
      "ComponentProvider_get C self (as ! j) (snd (get_providers C self (take j as) [] s)) = (Inl e, s')"
      by auto
    then have "j < length (as @ [a]) \<and>
       fst (get_providers C self (take j (as @ [a])) [] s) = Inr vs \<and>
       ComponentProvider_get C self ((as @ [a]) ! j)
         (snd (get_providers C self (take j (as @ [a])) [] s)) = (Inl e, s')"
      by (simp add: nth_append)
    then show ?thesis by blast
  next
    case (Inr vs0)
    with snoc.prems p have "ComponentProvider_get C self a s0 = (Inl e, s')"
      by (auto simp: get_providers_snoc split: prod.splits sum.splits)
    with p Inr have "length as < length (as @ [a]) \<and>
       fst (get_providers C self (take (length as) (as @ [a])) [] s) = Inr vs0 \<and>
       ComponentProvider_get C self ((as @ [a]) ! length as)
         (snd (get_providers C self (take (length as) (as @ [a])) [] s)) = (Inl e, s')"
      by simp
    then show ?thesis by blast
  qed
qed

lemma get_providers_callables:
  "list_all2 (\<lambda>a fn. a < length (providers s) \<and>
      storage_of (providers s ! a) = InstanceStorage (FunctionFactory fn)) as fns \<Longrightarrow>
   invoke_all fns (user s) = (Inr vs, u) \<Longrightarrow>
   get_providers C self as acc s =
     (Inr (acc @ vs), s\<lparr>user := u, calls := calls s + length fns\<rparr>)"
proof (induction as arbitrary: fns acc s vs)
  case Nil
  then show ?case by simp
next
  case (Cons a as)
  from Cons.prems(1) obtain fn fns' where fns: "fns = fn # fns'"
    and a: "a < length (providers s)"
      "storage_of (providers s ! a) = InstanceStorage (FunctionFactory fn)"
    and rest: "list_all2 (\<lambda>a fn. a < length (providers s) \<and>
      storage_of (providers s ! a) = InstanceStorage (FunctionFactory fn)) as fns'"
    by (auto simp: list_all2_Cons1)
  from Cons.prems(2) fns obtain v u1 vs' where fn: "fn (user s) = (Inr v, u1)"
    and all: "invoke_all fns' u1 = (Inr vs', u)" and vs: "vs = v # vs'"
    by (auto split: prod.splits sum.splits)
  let ?s1 = "s\<lparr>user := u1, calls := Suc (calls s)\<rparr>"
  from a fn have g: "ComponentProvider_get C self a s = (Inr v, ?s1)"
    by (simp add: ComponentProvider_get_def FunctionFactory_build_def)
  have "list_all2 (\<lambda>a fn. a < length (providers ?s1) \<and>
      storage_of (providers ?s1 ! a) = InstanceStorage (FunctionFactory fn)) as fns'"
    using rest by simp
  from Cons.IH [OF this, of vs' "acc @ [v]"] all g fns vs show ?case
    by simp
qed

lemma get_providers_callable_raises:
  "list_all2 (\<lambda>a fn. a < length (providers s) \<and>
      storage_of (providers s ! a) = InstanceStorage (FunctionFactory fn)) as fns \<Longrightarrow>
   invoke_all fns (user s) = (Inl x, u) \<Longrightarrow>
   fst (get_providers C self as acc s) = Inl (ProducerException x) \<and>
   user (snd (get_providers C self as acc s)) = u"
proof (induction as arbitrary: fns acc s)
  case Nil
  then show ?case by simp
next
  case (Cons a as)
  from Cons.prems(1) obtain fn fns' where fns: "fns = fn # fns'"
    and a: "a < length (providers s)"
      "storage_of (providers s ! a) = InstanceStorage (FunctionFactory fn)"
    and rest: "list_all2 (\<lambda>a fn. a < length (providers s) \<and>
      storage_of (providers s ! a) = InstanceStorage (FunctionFactory fn)) as fns'"
    by (auto simp: list_all2_Cons1)
  obtain r u1 where fn: "fn (user s) = (r, u1)" by (cases "fn (user s)")
  let ?s1 = "s\<lparr>user := u1, calls := Suc (calls s)\<rparr>"
  show ?case
  proof (cases r)
    case (Inl y)
    with Cons.prems(2) fns fn have "y = x" "u1 = u" by simp_all
    with a fn Inl show ?thesis
      by (simp add: ComponentProvider_get_def FunctionFactory_build_def)
  next
    case (Inr v)
    with Cons.prems(2) fns fn have all: "invoke_all fns' u1 = (Inl x, u)"
      by (auto split: prod.splits sum.splits)
    from a fn Inr have g: "ComponentProvider_get C self a s = (Inr v, ?s1)"
      by (simp add: ComponentProvider_get_def FunctionFactory_build_def)
    have "list_all2 (\<lambda>a fn. a < length (providers ?s1) \<and>
        storage_of (providers ?s1 ! a) = InstanceStorage (FunctionFactory fn)) as fns'"
      using rest by simp
    from Cons.IH [OF this, of "acc @ [v]"] all g show ?thesis by simp
  qed
qed

section \<open>Fallback construction\<close>

text \<open>
  A type with no entry is built by a local constructor factory. The lemmas below unfold that
  path, read off each argument of a successful resolution, and follow a chain of unregistered
  constructible types down to the types without parameters.
\<close>

lemma contains_heap [simp]: "contains (s\<lparr>heap := h\<rparr>) = contains s"
  by (simp add: contains_def fun_eq_iff)
















section \<open>The claims\<close>

subsection \<open>C1: the outcomes of single-instance retrieval\<close>





subsection \<open>C2: single-instance retrieval uses the last-registered provider\<close>

text \<open>
  C2. Where \<open>T\<close>'s identity has an entry, \<open>get_unchecked\<close>, and with it \<open>get\<close>, invokes the
  provider the last pointer of the entry points to and no other. A registration for \<open>T\<close> puts
  its provider there, whatever the entry held before. So after a callable \<open>fn\<close> is bound to \<open>T\<close>
  on any state, the retrieval is one invocation of \<open>fn\<close>: the outcome is what \<open>fn\<close> returns or
  raises, and of the state only what \<open>fn\<close> itself changed and the count of invocations differ.
\<close>

theorem get_selects_last_registered:
  "(m_Registrations s T = Some ps \<and> ps \<noteq> [] \<longrightarrow>
      get_unchecked C n T s =
        ComponentProvider_get C (ConstructorArgumentResolver C n) (last ps) s \<and>
      get C n T s =
        (case ComponentProvider_get C (ConstructorArgumentResolver C n) (last ps) s of
           (Inl e, s1) \<Rightarrow> (Inl e, s1)
         | (Inr None, s1) \<Rightarrow> (Inl ComponentCreationException, s1)
         | (Inr (Some a), s1) \<Rightarrow> (Inr (Some a), s1))) \<and>
   (\<exists>ps. m_Registrations (push_back_registration T p s) T = Some ps \<and> ps \<noteq> [] \<and>
      last ps = length (providers s) \<and>
      providers (push_back_registration T p s) ! last ps = p) \<and>
   get_unchecked C n T (add_fn T fn s) =
     ((case fst (fn (user s)) of Inl x \<Rightarrow> Inl (ProducerException x) | Inr v \<Rightarrow> Inr v),
      (add_fn T fn s)\<lparr>user := snd (fn (user s)), calls := Suc (calls s)\<rparr>) \<and>
   get_unchecked C n T (add_base_fn T D fn s) =
     ((case fst (fn (user s)) of Inl x \<Rightarrow> Inl (ProducerException x) | Inr v \<Rightarrow> Inr v),
      (add_base_fn T D fn s)\<lparr>user := snd (fn (user s)), calls := Suc (calls s)\<rparr>)"
  by (auto simp: get_null_check get_unchecked_last retrieval_defs add_defs
      split: prod.splits sum.splits)

theorem get_selects_last_registered_witness:
  "m_Registrations
     (add_base_fn 2 4 (\<lambda>c. (Inr (Some 20), c + 1))
        (add_base_fn 2 3 (\<lambda>c. (Inr (Some 10), c + 100)) (Injector (0::nat)))) 2
     = Some [0, 1] \<and>
   fst (get_unchecked no_params 0 2
     (add_base_fn 2 4 (\<lambda>c. (Inr (Some 20), c + 1))
        (add_base_fn 2 3 (\<lambda>c. (Inr (Some 10), c + 100)) (Injector (0::nat)))))
     = Inr (Some 20) \<and>
   user (snd (get_unchecked no_params 0 2
     (add_base_fn 2 4 (\<lambda>c. (Inr (Some 20), c + 1))
        (add_base_fn 2 3 (\<lambda>c. (Inr (Some 10), c + 100)) (Injector (0::nat))))))
     = 1"
  using get_selects_last_registered [of
      "add_base_fn 2 4 (\<lambda>c. (Inr (Some 20), c + 1))
         (add_base_fn 2 3 (\<lambda>c. (Inr (Some 10), c + 100)) (Injector (0::nat)))"
      2 "[0, 1]" no_params 0 "CastingComponentProvider (InstanceStorage (ConstantFactory None))"
      "\<lambda>c. (Inr (Some 20), c + 1)" 4]
  by (simp add: retrieval_defs add_defs)


subsection \<open>C3: singleton bindings\<close>

text \<open>
  C3, as stated, fails for a singleton binding whose first invocation does not complete. Class
  0, bound as a singleton by \<^verbatim>\<open>add_singleton<C0>()\<close>, takes a \<^verbatim>\<open>std::shared_ptr<C1>\<close>, and the
  callable bound to class 1 returns the empty handle at its first invocation and an object
  afterwards. The first retrieval of class 0 raises \<open>ComponentCreationException\<close> from the
  nested retrieval, nothing is cached, and the second retrieval runs the factory again and
  returns an object: two retrievals with two results and two invocations.
\<close>

theorem singleton_counterexample:
  "fst (retrievals needs_one 1 0 2
     (add_singleton 0
        (add_base_fn 1 1 (\<lambda>c. (Inr (if c = 0 then None else Some 7), Suc c)) (Injector (0::nat)))))
     = [Inl ComponentCreationException, Inr (Some 0)]"
  by (simp add: retrieval_defs add_defs needs_one_def eval_nat_numeral)

text \<open>
  C3, amended. Take a singleton binding that is the last one registered for \<open>T\<close>. If its
  cache slot holds \<open>w\<close>, every retrieval gives \<open>w\<close> (or \<open>ComponentCreationException\<close> for the
  empty \<open>w\<close>) and changes nothing. If the slot is empty and the first invocation of the factory
  completes with a result \<open>v\<close>, an instance or the empty handle, then for every \<open>N \<ge> 1\<close>, \<open>N\<close>
  consecutive retrievals all give \<open>v\<close> (or the exception each time for the empty \<open>v\<close>), and the
  state after them is the state after that one invocation with \<open>v\<close> in the slot: the factory
  ran once. If the first invocation fails, the retrieval fails with the same error and
  stores nothing. For each of the four singleton registrations this reads: a callable that
  returns \<open>v\<close> is invoked exactly once in \<open>N\<close> retrievals, all of which give \<open>v\<close>; a callable
  that raises leaves its provider without a cached value; and a default-constructed singleton
  whose first construction succeeds is constructed once.
\<close>

theorem singleton_retrievals:
  "(m_Registrations s T = Some ps \<and> ps \<noteq> [] \<and> last ps < length (providers s) \<and>
    storage_of (providers s ! last ps) = SingletonInstanceStorage f c \<longrightarrow>
      (c = Some w \<longrightarrow> retrievals C n T N s = (replicate N (checked w), s)) \<and>
      (c = None \<and> Factory_build C (ConstructorArgumentResolver C n) f s = (Inr v, s1) \<and> 0 < N \<longrightarrow>
         retrievals C n T N s =
           (replicate N (checked v),
            s1\<lparr>providers := (providers s1)[last ps := store_instance v (providers s1 ! last ps)]\<rparr>) \<and>
         storage_of (store_instance v (providers s1 ! last ps)) =
           SingletonInstanceStorage f (Some v)) \<and>
      (c = None \<and> Factory_build C (ConstructorArgumentResolver C n) f s = (Inl e, s1) \<longrightarrow>
         get C n T s = (Inl e, s1))) \<and>
   (fn (user s) = (Inr v, u) \<and> 0 < N \<longrightarrow>
      retrievals C n T N (add_singleton_fn T fn s) =
        (replicate N (checked v),
         s\<lparr>m_Registrations := m_Registrations (add_singleton_fn T fn s),
           providers := providers s @
             [NonCastingComponentProvider (SingletonInstanceStorage (FunctionFactory fn) (Some v))],
           user := u, calls := Suc (calls s)\<rparr>) \<and>
      retrievals C n T N (add_singleton_base_fn T D fn s) =
        (replicate N (checked v),
         s\<lparr>m_Registrations := m_Registrations (add_singleton_base_fn T D fn s),
           providers := providers s @
             [CastingComponentProvider (SingletonInstanceStorage (FunctionFactory fn) (Some v))],
           user := u, calls := Suc (calls s)\<rparr>)) \<and>
   (fn (user s) = (Inl x, u) \<longrightarrow>
      get C n T (add_singleton_fn T fn s) =
        (Inl (ProducerException x), (add_singleton_fn T fn s)\<lparr>user := u, calls := Suc (calls s)\<rparr>) \<and>
      get C n T (add_singleton_base_fn T D fn s) =
        (Inl (ProducerException x),
         (add_singleton_base_fn T D fn s)\<lparr>user := u, calls := Suc (calls s)\<rparr>)) \<and>
   (ConstructorFactory_build C (ConstructorArgumentResolver C n) T (add_singleton T s) = (Inr v, s1) \<and>
    0 < N \<longrightarrow>
      retrievals C n T N (add_singleton T s) =
        (replicate N (checked v),
         s1\<lparr>providers := (providers s1)[length (providers s) :=
            store_instance v (providers s1 ! length (providers s))]\<rparr>)) \<and>
   (ConstructorFactory_build C (ConstructorArgumentResolver C n) D (add_singleton_base T D s)
      = (Inr v, s1) \<and> 0 < N \<longrightarrow>
      retrievals C n T N (add_singleton_base T D s) =
        (replicate N (checked v),
         s1\<lparr>providers := (providers s1)[length (providers s) :=
            store_instance v (providers s1 ! length (providers s))]\<rparr>))"
proof (intro conjI impI)
  assume a: "m_Registrations s T = Some ps \<and> ps \<noteq> [] \<and> last ps < length (providers s) \<and>
    storage_of (providers s ! last ps) = SingletonInstanceStorage f c"
  then have p: "m_Registrations s T = Some ps" "ps \<noteq> []" "last ps < length (providers s)"
    "storage_of (providers s ! last ps) = SingletonInstanceStorage f c" by simp_all
  {
    assume "c = Some w"
    with p show "retrievals C n T N s = (replicate N (checked w), s)"
      by (intro retrievals_cached [where ps = ps and f = f]) simp_all
  }
  {
    assume b: "c = None \<and> Factory_build C (ConstructorArgumentResolver C n) f s = (Inr v, s1) \<and> 0 < N"
    then obtain k where N: "N = Suc k" by (cases N) auto
    from b p have q: "storage_of (providers s ! last ps) = SingletonInstanceStorage f None"
      "Factory_build C (ConstructorArgumentResolver C n) f s = (Inr v, s1)" by simp_all
    show "retrievals C n T N s =
           (replicate N (checked v),
            s1\<lparr>providers := (providers s1)[last ps := store_instance v (providers s1 ! last ps)]\<rparr>)"
      unfolding N using p(1-3) q by (rule singleton_first_build(1))
    show "storage_of (store_instance v (providers s1 ! last ps)) =
           SingletonInstanceStorage f (Some v)"
      using p(1-3) q by (rule singleton_first_build(2))
  }
  {
    assume b: "c = None \<and> Factory_build C (ConstructorArgumentResolver C n) f s = (Inl e, s1)"
    with p have q: "storage_of (providers s ! last ps) = SingletonInstanceStorage f None"
      "Factory_build C (ConstructorArgumentResolver C n) f s = (Inl e, s1)" by simp_all
    show "get C n T s = (Inl e, s1)" using p(1-3) q by (rule singleton_failed)
  }
next
  assume a: "fn (user s) = (Inr v, u) \<and> 0 < N"
  then obtain k where N: "N = Suc k" by (cases N) auto
  from a have fn: "fn (user s) = (Inr v, u)" by simp
  let ?p = "NonCastingComponentProvider (SingletonInstanceStorage (FunctionFactory fn) None)"
  let ?q = "CastingComponentProvider (SingletonInstanceStorage (FunctionFactory fn) None)"
  have "retrievals C n T (Suc k) (push_back_registration T ?p s) =
      (replicate (Suc k) (checked v),
       ((push_back_registration T ?p s)\<lparr>user := u, calls := Suc (calls s)\<rparr>)
         \<lparr>providers := (providers ((push_back_registration T ?p s)\<lparr>user := u, calls := Suc (calls s)\<rparr>))
            [length (providers s) := store_instance v
               (providers ((push_back_registration T ?p s)\<lparr>user := u, calls := Suc (calls s)\<rparr>) !
                  length (providers s))]\<rparr>)"
    by (rule singleton_registered [where f = "FunctionFactory fn"])
       (simp_all add: FunctionFactory_build_def fn registered_last)
  then show "retrievals C n T N (add_singleton_fn T fn s) =
        (replicate N (checked v),
         s\<lparr>m_Registrations := m_Registrations (add_singleton_fn T fn s),
           providers := providers s @
             [NonCastingComponentProvider (SingletonInstanceStorage (FunctionFactory fn) (Some v))],
           user := u, calls := Suc (calls s)\<rparr>)"
    by (simp add: N add_defs push_back_registration_def)
  have "retrievals C n T (Suc k) (push_back_registration T ?q s) =
      (replicate (Suc k) (checked v),
       ((push_back_registration T ?q s)\<lparr>user := u, calls := Suc (calls s)\<rparr>)
         \<lparr>providers := (providers ((push_back_registration T ?q s)\<lparr>user := u, calls := Suc (calls s)\<rparr>))
            [length (providers s) := store_instance v
               (providers ((push_back_registration T ?q s)\<lparr>user := u, calls := Suc (calls s)\<rparr>) !
                  length (providers s))]\<rparr>)"
    by (rule singleton_registered [where f = "FunctionFactory fn"])
       (simp_all add: FunctionFactory_build_def fn registered_last)
  then show "retrievals C n T N (add_singleton_base_fn T D fn s) =
        (replicate N (checked v),
         s\<lparr>m_Registrations := m_Registrations (add_singleton_base_fn T D fn s),
           providers := providers s @
             [CastingComponentProvider (SingletonInstanceStorage (FunctionFactory fn) (Some v))],
           user := u, calls := Suc (calls s)\<rparr>)"
    by (simp add: N add_defs push_back_registration_def)
next
  assume fn: "fn (user s) = (Inl x, u)"
  show "get C n T (add_singleton_fn T fn s) =
        (Inl (ProducerException x), (add_singleton_fn T fn s)\<lparr>user := u, calls := Suc (calls s)\<rparr>)"
    unfolding add_singleton_fn_def add_registration_def
    by (rule singleton_registered_failed [where f = "FunctionFactory fn"])
       (simp_all add: FunctionFactory_build_def fn registered_last)
  show "get C n T (add_singleton_base_fn T D fn s) =
        (Inl (ProducerException x),
         (add_singleton_base_fn T D fn s)\<lparr>user := u, calls := Suc (calls s)\<rparr>)"
    unfolding add_singleton_base_fn_def add_registration_base_def
    by (rule singleton_registered_failed [where f = "FunctionFactory fn"])
       (simp_all add: FunctionFactory_build_def fn registered_last)
next
  assume a: "ConstructorFactory_build C (ConstructorArgumentResolver C n) T (add_singleton T s)
      = (Inr v, s1) \<and> 0 < N"
  then obtain k where N: "N = Suc k" by (cases N) auto
  from a show "retrievals C n T N (add_singleton T s) =
        (replicate N (checked v),
         s1\<lparr>providers := (providers s1)[length (providers s) :=
            store_instance v (providers s1 ! length (providers s))]\<rparr>)"
    unfolding N add_singleton_def add_registration_def
    by (intro singleton_registered [where f = "ConstructorFactory T"]) simp_all
next
  assume a: "ConstructorFactory_build C (ConstructorArgumentResolver C n) D (add_singleton_base T D s)
      = (Inr v, s1) \<and> 0 < N"
  then obtain k where N: "N = Suc k" by (cases N) auto
  from a show "retrievals C n T N (add_singleton_base T D s) =
        (replicate N (checked v),
         s1\<lparr>providers := (providers s1)[length (providers s) :=
            store_instance v (providers s1 ! length (providers s))]\<rparr>)"
    unfolding N add_singleton_base_def add_registration_base_def
    by (intro singleton_registered [where f = "ConstructorFactory D"]) simp_all
qed

theorem singleton_retrievals_witness:
  "fst (retrievals no_params 0 5 3
     (add_singleton_base_fn 5 6 (\<lambda>c. (Inr (Some c), Suc c)) (Injector (0::nat))))
     = [Inr (Some 0), Inr (Some 0), Inr (Some 0)] \<and>
   user (snd (retrievals no_params 0 5 3
     (add_singleton_base_fn 5 6 (\<lambda>c. (Inr (Some c), Suc c)) (Injector (0::nat))))) = 1 \<and>
   calls (snd (retrievals no_params 0 5 3
     (add_singleton_base_fn 5 6 (\<lambda>c. (Inr (Some c), Suc c)) (Injector (0::nat))))) = 1 \<and>
   fst (retrievals no_params 0 5 2
     (add_singleton_base_fn 5 6 (\<lambda>c. (Inr None, Suc c)) (Injector (0::nat))))
     = [Inl ComponentCreationException, Inl ComponentCreationException] \<and>
   calls (snd (retrievals no_params 0 5 2
     (add_singleton_base_fn 5 6 (\<lambda>c. (Inr None, Suc c)) (Injector (0::nat))))) = 1 \<and>
   fst (get no_params 0 5 (add_singleton_base_fn 5 6 (\<lambda>c. (Inl 9, Suc c)) (Injector (0::nat))))
     = Inl (ProducerException 9) \<and>
   fst (retrievals no_params 0 5 2 (add_singleton_base 5 6 (Injector (0::nat))))
     = [Inr (Some 0), Inr (Some 0)] \<and>
   m_Registrations (add_singleton_base 5 6 (Injector (0::nat))) 5 = Some [0] \<and>
   heap (snd (retrievals no_params 0 5 2 (add_singleton_base 5 6 (Injector (0::nat))))) = [(6, [])]"
proof -
  let ?b = "add_singleton_base 5 6 (Injector (0::nat))"
  have b: "ConstructorFactory_build no_params (ConstructorArgumentResolver no_params 0) 6 ?b
      = (Inr (Some 0), ?b\<lparr>heap := [(6, [])]\<rparr>)"
    by (simp add: ConstructorFactory_build_def no_params_def add_defs push_back_registration_def
        Injector_def)
  have r: "m_Registrations ?b 5 = Some [0]"
    "storage_of (providers ?b ! 0) = SingletonInstanceStorage (ConstructorFactory 6) None"
    by (simp_all add: add_defs push_back_registration_def Injector_def)
  from singleton_retrievals [where s = "Injector (0::nat)" and T = 5 and D = 6 and C = no_params
      and n = 0 and N = 3 and fn = "\<lambda>c. (Inr (Some c), Suc c)" and v = "Some 0" and u = 1]
    singleton_retrievals [where s = "Injector (0::nat)" and T = 5 and D = 6 and C = no_params
      and n = 0 and N = 2 and fn = "\<lambda>c. (Inr None, Suc c)" and v = None and u = 1]
    singleton_retrievals [where s = "Injector (0::nat)" and T = 5 and D = 6 and C = no_params
      and n = 0 and fn = "\<lambda>c. (Inl 9, Suc c)" and x = 9 and u = 1]
    singleton_retrievals [where s = "Injector (0::nat)" and T = 5 and D = 6 and C = no_params
      and n = 0 and N = 2 and v = "Some 0" and ?s1.0 = "?b\<lparr>heap := [(6, [])]\<rparr>"]
    singleton_retrievals [where s = ?b and T = 5 and ps = "[0]" and f = "ConstructorFactory 6"
      and c = None and C = no_params and n = 0 and N = 2 and v = "Some 0"
      and ?s1.0 = "?b\<lparr>heap := [(6, [])]\<rparr>"]
    b r
  show ?thesis
    by (simp add: checked_def Injector_def eval_nat_numeral add_defs push_back_registration_def)
qed


subsection \<open>C4: transient bindings\<close>

text \<open>
  C4, as stated, fails: a transient binding whose callable returns a handle it holds, here
  \<^verbatim>\<open>add<C0, C0>(fn)\<close>, gives the same instance at every retrieval, not pairwise distinct
  ones. (The header documents the same for \<^verbatim>\<open>add<Base, Derived>(data)\<close>, which wraps a constant
  factory in the transient storage.)
\<close>

theorem transient_counterexample:
  "fst (retrievals no_params 0 0 2 (add_base_fn 0 0 (\<lambda>u. (Inr (Some 7), u)) (Injector ())))
     = [Inr (Some 7), Inr (Some 7)]"
  by (simp add: retrieval_defs add_defs eval_nat_numeral)

text \<open>
  C4, amended. Where the last binding registered for \<open>T\<close> is transient, \<open>N\<close> consecutive
  retrievals are \<open>N\<close> successive builds of its factory, each retrieval returning the outcome of
  its own build (the empty instance as \<open>ComponentCreationException\<close>); nothing is cached. So a
  callable is invoked exactly \<open>N\<close> times and the retrievals give its \<open>N\<close> successive outcomes,
  which are pairwise distinct exactly when the callable's are; a constant gives the same
  handle \<open>N\<close> times; and the default-construction factory is run \<open>N\<close> times, the instances
  returned being new objects, pairwise distinct, and, for a class without constructor
  parameters, exactly \<open>N\<close> new objects at the next \<open>N\<close> addresses. The same holds right after
  each transient registration.
\<close>

theorem transient_retrievals:
  "(m_Registrations s T = Some ps \<and> ps \<noteq> [] \<and> last ps < length (providers s) \<and>
    storage_of (providers s ! last ps) = InstanceStorage f \<longrightarrow>
      retrievals C n T N s =
        (map null_check (fst (builds C (ConstructorArgumentResolver C n) f N s)),
         snd (builds C (ConstructorArgumentResolver C n) f N s)) \<and>
      (f = FunctionFactory fn \<longrightarrow>
         retrievals C n T N s =
           (map delivered (fst (invoke_n fn N (user s))),
            s\<lparr>user := snd (invoke_n fn N (user s)), calls := calls s + N\<rparr>) \<and>
         (distinct (fst (retrievals C n T N s)) \<longleftrightarrow> distinct (fst (invoke_n fn N (user s))))) \<and>
      (f = ConstantFactory d \<longrightarrow> retrievals C n T N s = (replicate N (checked d), s)) \<and>
      (f = ConstructorFactory D \<longrightarrow>
         distinct (returned (fst (retrievals C n T N s))) \<and>
         (\<forall>a \<in> set (returned (fst (retrievals C n T N s))). length (heap s) \<le> a) \<and>
         (C D = [] \<longrightarrow>
            retrievals C n T N s =
              (map (\<lambda>i. Inr (Some (length (heap s) + i))) [0..<N],
               s\<lparr>heap := heap s @ replicate N (D, [])\<rparr>)))) \<and>
   retrievals C n T N (add_base_fn T D fn s) =
     (map delivered (fst (invoke_n fn N (user s))),
      (add_base_fn T D fn s)\<lparr>user := snd (invoke_n fn N (user s)), calls := calls s + N\<rparr>) \<and>
   retrievals C n T N (add_fn T fn s) =
     (map delivered (fst (invoke_n fn N (user s))),
      (add_fn T fn s)\<lparr>user := snd (invoke_n fn N (user s)), calls := calls s + N\<rparr>) \<and>
   retrievals C n T N (add_base_data T D d s) = (replicate N (checked d), add_base_data T D d s) \<and>
   retrievals C n T N (add_base T D s) =
     (map null_check
        (fst (builds C (ConstructorArgumentResolver C n) (ConstructorFactory D) N (add_base T D s))),
      snd (builds C (ConstructorArgumentResolver C n) (ConstructorFactory D) N (add_base T D s))) \<and>
   retrievals C n T N (add T s) =
     (map null_check
        (fst (builds C (ConstructorArgumentResolver C n) (ConstructorFactory T) N (add T s))),
      snd (builds C (ConstructorArgumentResolver C n) (ConstructorFactory T) N (add T s))) \<and>
   (C D = [] \<longrightarrow>
      retrievals C n T N (add_base T D s) =
        (map (\<lambda>i. Inr (Some (length (heap s) + i))) [0..<N],
         (add_base T D s)\<lparr>heap := heap s @ replicate N (D, [])\<rparr>))"
proof (intro conjI impI)
  assume a: "m_Registrations s T = Some ps \<and> ps \<noteq> [] \<and> last ps < length (providers s) \<and>
    storage_of (providers s ! last ps) = InstanceStorage f"
  then have p: "m_Registrations s T = Some ps" "ps \<noteq> []" "last ps < length (providers s)"
    "storage_of (providers s ! last ps) = InstanceStorage f" by simp_all
  from p show g: "retrievals C n T N s =
        (map null_check (fst (builds C (ConstructorArgumentResolver C n) f N s)),
         snd (builds C (ConstructorArgumentResolver C n) f N s))"
    by (rule retrievals_transient)
  {
    assume f: "f = FunctionFactory fn"
    show r: "retrievals C n T N s =
           (map delivered (fst (invoke_n fn N (user s))),
            s\<lparr>user := snd (invoke_n fn N (user s)), calls := calls s + N\<rparr>)"
      by (simp add: g f builds_callable map_delivered o_def delivered_eq)
    show "distinct (fst (retrievals C n T N s)) \<longleftrightarrow> distinct (fst (invoke_n fn N (user s)))"
      by (simp add: r distinct_map inj_on_subset [OF inj_delivered subset_UNIV])
  }
  {
    assume f: "f = ConstantFactory d"
    show "retrievals C n T N s = (replicate N (checked d), s)"
      by (simp add: g f builds_constant)
  }
  {
    assume f: "f = ConstructorFactory D"
    obtain rs s' where r: "retrievals C n T N s = (rs, s')" by (cases "retrievals C n T N s")
    from retrievals_constructed [of s T ps D C n N rs s'] p f r
    show "distinct (returned (fst (retrievals C n T N s)))"
      and "\<forall>a \<in> set (returned (fst (retrievals C n T N s))). length (heap s) \<le> a"
      by simp_all
    {
      assume "C D = []"
      then show "retrievals C n T N s =
              (map (\<lambda>i. Inr (Some (length (heap s) + i))) [0..<N],
               s\<lparr>heap := heap s @ replicate N (D, [])\<rparr>)"
        by (simp add: g f builds_default o_def checked_def)
    }
  }
next
  show "retrievals C n T N (add_base_fn T D fn s) =
     (map delivered (fst (invoke_n fn N (user s))),
      (add_base_fn T D fn s)\<lparr>user := snd (invoke_n fn N (user s)), calls := calls s + N\<rparr>)"
    unfolding add_base_fn_def add_registration_base_def
    by (simp add: retrievals_transient_registered [where f = "FunctionFactory fn"]
        builds_callable o_def delivered_eq registered_last)
next
  show "retrievals C n T N (add_fn T fn s) =
     (map delivered (fst (invoke_n fn N (user s))),
      (add_fn T fn s)\<lparr>user := snd (invoke_n fn N (user s)), calls := calls s + N\<rparr>)"
    unfolding add_fn_def add_registration_def
    by (simp add: retrievals_transient_registered [where f = "FunctionFactory fn"]
        builds_callable o_def delivered_eq registered_last)
next
  show "retrievals C n T N (add_base_data T D d s) = (replicate N (checked d), add_base_data T D d s)"
    unfolding add_base_data_def add_registration_base_def
    by (simp add: retrievals_transient_registered [where f = "ConstantFactory d"] builds_constant)
next
  show "retrievals C n T N (add_base T D s) =
     (map null_check
        (fst (builds C (ConstructorArgumentResolver C n) (ConstructorFactory D) N (add_base T D s))),
      snd (builds C (ConstructorArgumentResolver C n) (ConstructorFactory D) N (add_base T D s)))"
    unfolding add_base_def add_registration_base_def
    by (rule retrievals_transient_registered) simp
next
  show "retrievals C n T N (add T s) =
     (map null_check
        (fst (builds C (ConstructorArgumentResolver C n) (ConstructorFactory T) N (add T s))),
      snd (builds C (ConstructorArgumentResolver C n) (ConstructorFactory T) N (add T s)))"
    unfolding add_def add_registration_def
    by (rule retrievals_transient_registered) simp
next
  assume "C D = []"
  then show "retrievals C n T N (add_base T D s) =
        (map (\<lambda>i. Inr (Some (length (heap s) + i))) [0..<N],
         (add_base T D s)\<lparr>heap := heap s @ replicate N (D, [])\<rparr>)"
    unfolding add_base_def add_registration_base_def
    by (simp add: retrievals_transient_registered [where f = "ConstructorFactory D"]
        builds_default o_def checked_def heap_push_back)
qed

theorem transient_retrievals_witness:
  "m_Registrations (add_base_fn 5 6 (\<lambda>c. (Inr (Some c), Suc c)) (Injector (0::nat))) 5 = Some [0] \<and>
   storage_of (providers (add_base_fn 5 6 (\<lambda>c. (Inr (Some c), Suc c)) (Injector (0::nat))) ! 0)
     = InstanceStorage (FunctionFactory (\<lambda>c. (Inr (Some c), Suc c))) \<and>
   retrievals no_params 0 5 3 (add_base_fn 5 6 (\<lambda>c. (Inr (Some c), Suc c)) (Injector (0::nat)))
     = ([Inr (Some 0), Inr (Some 1), Inr (Some 2)],
        (add_base_fn 5 6 (\<lambda>c. (Inr (Some c), Suc c)) (Injector (0::nat)))\<lparr>user := 3, calls := 3\<rparr>) \<and>
   m_Registrations (add_base 5 6 (Injector (0::nat))) 5 = Some [0] \<and>
   storage_of (providers (add_base 5 6 (Injector (0::nat))) ! 0)
     = InstanceStorage (ConstructorFactory 6) \<and>
   retrievals no_params 0 5 2 (add_base 5 6 (Injector (0::nat)))
     = ([Inr (Some 0), Inr (Some 1)], (add_base 5 6 (Injector (0::nat)))\<lparr>heap := [(6, []), (6, [])]\<rparr>) \<and>
   distinct (returned (fst (retrievals no_params 0 5 2 (add_base 5 6 (Injector (0::nat))))))"
proof -
  let ?g = "\<lambda>c::nat. (Inr (Some c) :: nat + instance, Suc c)"
  let ?s = "add_base_fn 5 6 ?g (Injector (0::nat))"
  let ?b = "add_base 5 6 (Injector (0::nat))"
  have h: "m_Registrations ?s 5 = Some [0]" "length (providers ?s) = 1"
    "storage_of (providers ?s ! 0) = InstanceStorage (FunctionFactory ?g)"
    "user ?s = 0" "calls ?s = 0"
    by (simp_all add: add_defs push_back_registration_def Injector_def)
  have k: "m_Registrations ?b 5 = Some [0]" "length (providers ?b) = 1"
    "storage_of (providers ?b ! 0) = InstanceStorage (ConstructorFactory 6)" "heap ?b = []"
    by (simp_all add: add_defs push_back_registration_def Injector_def)
  have i: "invoke_n ?g 3 0 = ([Inr (Some 0), Inr (Some 1), Inr (Some 2)], 3)"
    by (simp add: eval_nat_numeral)
  have j: "map (\<lambda>i. Inr (Some (0 + i)) :: error + instance) [0..<2] = [Inr (Some 0), Inr (Some 1)]"
    "replicate 2 (6::nat, [] :: argument list) = [(6, []), (6, [])]"
    by (simp_all add: eval_nat_numeral upt_rec)
  have h': "m_Registrations ?s 5 = Some [0] \<and> [0::nat] \<noteq> [] \<and> last [0] < length (providers ?s) \<and>
      storage_of (providers ?s ! last [0]) = InstanceStorage (FunctionFactory ?g)"
    using h by simp
  have k': "m_Registrations ?b 5 = Some [0] \<and> [0::nat] \<noteq> [] \<and> last [0] < length (providers ?b) \<and>
      storage_of (providers ?b ! last [0]) = InstanceStorage (ConstructorFactory 6)"
    using k by simp
  have np: "no_params 6 = []" by (simp add: no_params_def)
  note t = transient_retrievals [where s = ?s and T = 5 and ps = "[0]" and f = "FunctionFactory ?g"
      and fn = ?g and C = no_params and n = 0 and N = 3, THEN conjunct1, THEN mp, OF h',
      THEN conjunct2, THEN conjunct1, THEN mp, OF refl, THEN conjunct1]
  from t h i have a: "retrievals no_params 0 5 3 ?s =
      ([Inr (Some 0), Inr (Some 1), Inr (Some 2)], ?s\<lparr>user := 3, calls := 3\<rparr>)"
    by (simp add: delivered_def checked_def)
  note c = transient_retrievals [where s = ?b and T = 5 and ps = "[0]" and f = "ConstructorFactory 6"
      and D = 6 and C = no_params and n = 0 and N = 2, THEN conjunct1, THEN mp, OF k',
      THEN conjunct2, THEN conjunct2, THEN conjunct2, THEN mp, OF refl]
  from c [THEN conjunct2, THEN conjunct2, THEN mp, OF np] k j
  have b: "retrievals no_params 0 5 2 ?b =
      ([Inr (Some 0), Inr (Some 1)], ?b\<lparr>heap := [(6, []), (6, [])]\<rparr>)"
    by simp
  from c [THEN conjunct1]
  have d: "distinct (returned (fst (retrievals no_params 0 5 2 ?b)))" .
  from h k a b d show ?thesis by simp
qed


subsection \<open>C5: collection retrieval\<close>

text \<open>
  C5, as stated, fails in its last part: a provider of the collection may construct its
  instance by injection, and a single-instance retrieval nested in that construction raises
  \<open>ComponentCreationException\<close>, which the collection retrieval passes on. Here class 2, bound
  to the base type 0 by \<^verbatim>\<open>add<C0, C2>()\<close>, takes a \<^verbatim>\<open>std::shared_ptr<C1>\<close>, and the callable
  bound to class 1 by \<^verbatim>\<open>add<C1, C1>(fn)\<close> returns the empty handle.
\<close>

theorem get_vector_counterexample:
  "fst (get_vector derived_needs_one 1 0
     (add_base_fn 1 1 (\<lambda>u. (Inr None, u)) (add_base 0 2 (Injector ()))))
     = Inl ComponentCreationException"
  by (simp add: retrieval_defs add_defs derived_needs_one_def)

text \<open>
  C5, amended. Collection retrieval returns the empty sequence, and constructs nothing, where
  \<open>T\<close>'s identity has no entry. Where it has one, the providers of the entry are invoked in
  registration order, each in the state the earlier ones left, up to the first one that
  fails. When none fails, the result holds exactly one instance for each provider, the \<open>i\<close>-th
  being what the \<open>i\<close>-th provider returned, the empty handles included. When one fails, the
  retrieval fails with that provider's error in the state that provider left: it raises no
  \<open>ComponentCreationException\<close> of its own, and the providers after the failing one are not
  invoked. For providers bound to callables the result is the sequence of the callables'
  results, each invoked once, or the exception of the first that raises; and two callables
  bound in turn to an identity without an entry give their two results in that order.
\<close>

theorem get_vector_all_in_order:
  "(\<not> contains s T \<longrightarrow> get_vector C n T s = (Inr [], s)) \<and>
   (m_Registrations s T = Some ps \<and> get_vector C n T s = (Inr vs, s') \<longrightarrow>
      length vs = length ps \<and>
      (\<forall>i < length ps.
         ComponentProvider_get C (ConstructorArgumentResolver C n) (ps ! i)
           (snd (get_providers C (ConstructorArgumentResolver C n) (take i ps) [] s)) =
         (Inr (vs ! i),
          snd (get_providers C (ConstructorArgumentResolver C n) (take (Suc i) ps) [] s))) \<and>
      snd (get_providers C (ConstructorArgumentResolver C n) (take (length ps) ps) [] s) = s') \<and>
   (m_Registrations s T = Some ps \<and> get_vector C n T s = (Inl e, s') \<longrightarrow>
      (\<exists>j < length ps. \<exists>ws.
         fst (get_providers C (ConstructorArgumentResolver C n) (take j ps) [] s) = Inr ws \<and>
         ComponentProvider_get C (ConstructorArgumentResolver C n) (ps ! j)
           (snd (get_providers C (ConstructorArgumentResolver C n) (take j ps) [] s)) =
         (Inl e, s'))) \<and>
   (m_Registrations s T = Some ps \<and>
    list_all2 (\<lambda>a fn. a < length (providers s) \<and>
      storage_of (providers s ! a) = InstanceStorage (FunctionFactory fn)) ps fns \<longrightarrow>
      (invoke_all fns (user s) = (Inr vs, u) \<longrightarrow>
         get_vector C n T s = (Inr vs, s\<lparr>user := u, calls := calls s + length fns\<rparr>)) \<and>
      (invoke_all fns (user s) = (Inl x, u) \<longrightarrow>
         fst (get_vector C n T s) = Inl (ProducerException x) \<and>
         user (snd (get_vector C n T s)) = u)) \<and>
   (\<not> contains s T \<and> f1 (user s) = (Inr v1, u1) \<and> f2 u1 = (Inr v2, u2) \<longrightarrow>
      get_vector C n T (add_base_fn T D2 f2 (add_base_fn T D1 f1 s)) =
        (Inr [v1, v2],
         (add_base_fn T D2 f2 (add_base_fn T D1 f1 s))\<lparr>user := u2, calls := calls s + 2\<rparr>))"
proof (intro conjI impI)
  assume "\<not> contains s T"
  then show "get_vector C n T s = (Inr [], s)"
    by (simp add: get_vector_def get_vector_in_def contains_def)
next
  assume a: "m_Registrations s T = Some ps \<and> get_vector C n T s = (Inr vs, s')"
  then have g: "get_providers C (ConstructorArgumentResolver C n) ps [] s = (Inr vs, s')"
    by (auto simp: get_vector_def get_vector_in_def)
  from get_providers_success [OF g]
  show "length vs = length ps"
    and "\<forall>i < length ps.
         ComponentProvider_get C (ConstructorArgumentResolver C n) (ps ! i)
           (snd (get_providers C (ConstructorArgumentResolver C n) (take i ps) [] s)) =
         (Inr (vs ! i),
          snd (get_providers C (ConstructorArgumentResolver C n) (take (Suc i) ps) [] s))"
    by simp_all
  from g show "snd (get_providers C (ConstructorArgumentResolver C n) (take (length ps) ps) [] s) = s'"
    by simp
next
  assume a: "m_Registrations s T = Some ps \<and> get_vector C n T s = (Inl e, s')"
  then have g: "get_providers C (ConstructorArgumentResolver C n) ps [] s = (Inl e, s')"
    by (auto simp: get_vector_def get_vector_in_def)
  from get_providers_failure [OF g]
  show "\<exists>j < length ps. \<exists>ws.
         fst (get_providers C (ConstructorArgumentResolver C n) (take j ps) [] s) = Inr ws \<and>
         ComponentProvider_get C (ConstructorArgumentResolver C n) (ps ! j)
           (snd (get_providers C (ConstructorArgumentResolver C n) (take j ps) [] s)) =
         (Inl e, s')" .
next
  assume a: "m_Registrations s T = Some ps \<and>
    list_all2 (\<lambda>a fn. a < length (providers s) \<and>
      storage_of (providers s ! a) = InstanceStorage (FunctionFactory fn)) ps fns"
  {
    assume "invoke_all fns (user s) = (Inr vs, u)"
    with a get_providers_callables [of s ps fns vs u C "ConstructorArgumentResolver C n" "[]"]
    show "get_vector C n T s = (Inr vs, s\<lparr>user := u, calls := calls s + length fns\<rparr>)"
      by (simp add: get_vector_def get_vector_in_def)
  }
  {
    assume "invoke_all fns (user s) = (Inl x, u)"
    with a get_providers_callable_raises [of s ps fns x u C "ConstructorArgumentResolver C n" "[]"]
    show "fst (get_vector C n T s) = Inl (ProducerException x)"
      and "user (snd (get_vector C n T s)) = u"
      by (simp_all add: get_vector_def get_vector_in_def)
  }
next
  assume a: "\<not> contains s T \<and> f1 (user s) = (Inr v1, u1) \<and> f2 u1 = (Inr v2, u2)"
  let ?s = "add_base_fn T D2 f2 (add_base_fn T D1 f1 s)"
  from a have reg: "m_Registrations ?s T = Some [length (providers s), Suc (length (providers s))]"
    by (simp add: add_defs push_back_registration_def contains_def)
  have all: "list_all2 (\<lambda>a fn. a < length (providers ?s) \<and>
      storage_of (providers ?s ! a) = InstanceStorage (FunctionFactory fn))
      [length (providers s), Suc (length (providers s))] [f1, f2]"
    by (simp add: add_defs push_back_registration_def nth_append)
  from a have inv: "invoke_all [f1, f2] (user ?s) = (Inr [v1, v2], u2)"
    by (simp add: add_defs push_back_registration_def)
  from get_providers_callables [OF all inv, of C "ConstructorArgumentResolver C n" "[]"] reg
  show "get_vector C n T ?s = (Inr [v1, v2], ?s\<lparr>user := u2, calls := calls s + 2\<rparr>)"
    by (simp add: get_vector_def get_vector_in_def add_defs push_back_registration_def)
qed

theorem get_vector_all_in_order_witness:
  "\<not> contains (Injector (7::nat)) 3 \<and>
   get_vector no_params 0 3 (Injector (7::nat)) = (Inr [], Injector 7) \<and>
   get_vector no_params 0 3
     (add_base_fn 3 4 (\<lambda>c. (Inr None, c + 10))
        (add_base_fn 3 3 (\<lambda>c. (Inr (Some c), Suc c)) (Injector (7::nat))))
     = (Inr [Some 7, None],
        (add_base_fn 3 4 (\<lambda>c. (Inr None, c + 10))
           (add_base_fn 3 3 (\<lambda>c. (Inr (Some c), Suc c)) (Injector (7::nat))))\<lparr>user := 18, calls := 2\<rparr>) \<and>
   m_Registrations
     (add_base_fn 3 4 (\<lambda>c. (Inr None, c + 10))
        (add_base_fn 3 3 (\<lambda>c. (Inr (Some c), Suc c)) (Injector (7::nat)))) 3 = Some [0, 1] \<and>
   fst (ComponentProvider_get no_params (ConstructorArgumentResolver no_params 0) 0
     (add_base_fn 3 4 (\<lambda>c. (Inr None, c + 10))
        (add_base_fn 3 3 (\<lambda>c. (Inr (Some c), Suc c)) (Injector (7::nat)))))
     = Inr (Some 7) \<and>
   fst (ComponentProvider_get no_params (ConstructorArgumentResolver no_params 0) 1
     (snd (get_providers no_params (ConstructorArgumentResolver no_params 0) [0] []
       (add_base_fn 3 4 (\<lambda>c. (Inr None, c + 10))
          (add_base_fn 3 3 (\<lambda>c. (Inr (Some c), Suc c)) (Injector (7::nat)))))))
     = Inr None"
proof -
  let ?f1 = "\<lambda>c::nat. (Inr (Some c) :: nat + instance, Suc c)"
  let ?f2 = "\<lambda>c::nat. (Inr None :: nat + instance, c + 10)"
  let ?s = "add_base_fn 3 4 ?f2 (add_base_fn 3 3 ?f1 (Injector (7::nat)))"
  have e: "\<not> contains (Injector (7::nat)) 3" by (rule contains_Injector)
  note t = get_vector_all_in_order [where s = "Injector (7::nat)" and T = 3 and C = no_params
      and n = 0 and ?f1.0 = ?f1 and ?f2.0 = ?f2 and ?v1.0 = "Some 7" and ?u1.0 = 8 and ?v2.0 = None
      and ?u2.0 = 18 and ?D1.0 = 3 and ?D2.0 = 4]
  have h: "\<not> contains (Injector (7::nat)) 3 \<and> ?f1 (user (Injector (7::nat))) = (Inr (Some 7), 8) \<and>
      ?f2 8 = (Inr None, 18)"
    using e by (simp add: Injector_def)
  from t [THEN conjunct1, THEN mp, OF e]
  have a: "get_vector no_params 0 3 (Injector (7::nat)) = (Inr [], Injector 7)" .
  from t [THEN conjunct2, THEN conjunct2, THEN conjunct2, THEN conjunct2, THEN mp, OF h]
  have b: "get_vector no_params 0 3 ?s = (Inr [Some 7, None], ?s\<lparr>user := 18, calls := 2\<rparr>)"
    by (simp add: Injector_def add_defs push_back_registration_def)
  have r: "m_Registrations ?s 3 = Some [0, 1]"
    by (simp add: add_defs push_back_registration_def Injector_def)
  from r b have rb: "m_Registrations ?s 3 = Some [0, 1] \<and>
      get_vector no_params 0 3 ?s = (Inr [Some 7, None], ?s\<lparr>user := 18, calls := 2\<rparr>)" by simp
  note u = get_vector_all_in_order [where s = ?s and T = 3 and C = no_params and n = 0
      and ps = "[0, 1]" and vs = "[Some 7, None]" and s' = "?s\<lparr>user := 18, calls := 2\<rparr>",
      THEN conjunct2, THEN conjunct1, THEN mp, OF rb]
  from u have c: "\<forall>i < length [0::nat, 1].
      fst (ComponentProvider_get no_params (ConstructorArgumentResolver no_params 0) ([0, 1] ! i)
        (snd (get_providers no_params (ConstructorArgumentResolver no_params 0) (take i [0, 1]) [] ?s)))
      = Inr ([Some 7, None] ! i)"
    by simp
  from c [rule_format, of 0]
  have c0: "fst (ComponentProvider_get no_params (ConstructorArgumentResolver no_params 0) 0 ?s)
      = Inr (Some 7)"
    by simp
  from c [rule_format, of 1]
  have c1: "fst (ComponentProvider_get no_params (ConstructorArgumentResolver no_params 0) 1
      (snd (get_providers no_params (ConstructorArgumentResolver no_params 0) [0] [] ?s)))
      = Inr None"
    by simp
  from e a b r c0 c1 show ?thesis by simp
qed


subsection \<open>C6: the fallback to direct construction\<close>




subsection \<open>C7: \<open>contains\<close>\<close>

text \<open>
  C7. \<open>contains\<close> is a function of the injector's state alone: it returns a truth value,
  constructs nothing, changes nothing and has no failing branch. On the state a client reaches
  from a new injector by any sequence of registrations and retrievals, \<open>contains T\<close> holds if and
  only if one of the calls made was a registration for \<open>T\<close>'s identity (so it is false before
  any such call, true right after one, and no retrieval changes it), and if and only if the
  entry of \<open>T\<close>'s identity holds at least one provider.
\<close>

theorem contains_iff_bound:
  "(contains (run C n cs (Injector u)) T \<longleftrightarrow> (\<exists>c \<in> set cs. bound_type c = Some T)) \<and>
   (contains (run C n cs (Injector u)) T \<longleftrightarrow>
      (\<exists>ps. m_Registrations (run C n cs (Injector u)) T = Some ps \<and> ps \<noteq> []))"
  using run_contains [of C n cs "Injector u" T] contains_Injector [of u T]
    well_formed_contains [OF run_well_formed [OF well_formed_Injector], of C n cs u T]
  by simp

theorem contains_iff_bound_witness:
  "contains (run no_params 0 [Get 3, Try_add_base 3 4, Get_vector 5] (Injector ())) 3 \<and>
   \<not> contains (run no_params 0 [Get 3, Try_add_base 3 4, Get_vector 5] (Injector ())) 5 \<and>
   \<not> contains (run no_params 0 [Get 3] (Injector ())) 3"
  using contains_iff_bound [of no_params 0 "[Get 3, Try_add_base 3 4, Get_vector 5]" "()" 3]
    contains_iff_bound [of no_params 0 "[Get 3, Try_add_base 3 4, Get_vector 5]" "()" 5]
    contains_iff_bound [of no_params 0 "[Get 3]" "()" 3]
  by simp


subsection \<open>C8: the "only if absent" registrations\<close>

text \<open>
  C8. Where the target identity (\<open>T\<close>, or the base type of a binding to a derived type) already
  has an entry, each of the nine "only if absent" functions returns the state it was given:
  the table and the providers are what they were, and no callable ran, the state captured by
  the callables and the count of their invocations being part of that state.
\<close>

theorem try_add_noop:
  "contains s T \<Longrightarrow>
     try_add T s = s \<and> try_add_base T D s = s \<and>
     try_add_singleton T s = s \<and> try_add_singleton_base T D s = s \<and>
     try_add_fn T fn s = s \<and> try_add_base_fn T D fn s = s \<and>
     try_add_singleton_fn T fn s = s \<and> try_add_singleton_base_fn T D fn s = s \<and>
     try_add_base_data T D data s = s"
  by (simp add: try_add_defs)

theorem try_add_noop_witness:
  "contains (add_base_fn 0 0 (\<lambda>c. (Inr (Some c), Suc c)) (Injector (0::nat))) 0 \<and>
   try_add_singleton_base_fn 0 1 (\<lambda>c. (Inr None, c + 5))
       (add_base_fn 0 0 (\<lambda>c. (Inr (Some c), Suc c)) (Injector 0))
     = add_base_fn 0 0 (\<lambda>c. (Inr (Some c), Suc c)) (Injector 0) \<and>
   try_add_base_data 0 1 (Some 7) (add_base_fn 0 0 (\<lambda>c. (Inr (Some c), Suc c)) (Injector 0))
     = add_base_fn 0 0 (\<lambda>c. (Inr (Some c), Suc c)) (Injector 0)"
proof -
  have h: "contains (add_base_fn 0 0 (\<lambda>c. (Inr (Some c), Suc c)) (Injector (0::nat))) 0"
    by (simp add: add_defs contains_push_back)
  from try_add_noop [OF h] h show ?thesis by simp
qed


subsection \<open>C10: the fallback construction registers nothing\<close>

text \<open>
  C10. A single-instance retrieval of a type \<open>T\<close> whose identity has no entry goes through the
  default-construction factory and leaves the table as it was: \<open>m_Registrations\<close> is the same
  map, no provider object is added, every provider is bound to what it was bound to (a
  dependency resolved on the way may have filled the cache slot of its singleton storage), and
  \<open>contains T\<close> is still false.
\<close>

theorem fallback_keeps_bindings:
  assumes "\<not> contains s T" and "get C n T s = (r, s')"
  shows "get_unchecked C n T s = ConstructorFactory_build C (ConstructorArgumentResolver C n) T s \<and>
         m_Registrations s' = m_Registrations s \<and>
         length (providers s') = length (providers s) \<and>
         map binding_of (providers s') = map binding_of (providers s) \<and>
         \<not> contains s' T"
proof -
  from assms(2) have sb: "evolves s s'" by (rule get_frame)
  from assms(1) have "get_unchecked C n T s =
      ConstructorFactory_build C (ConstructorArgumentResolver C n) T s"
    by (simp add: get_unchecked_def get_unchecked_in_def contains_def)
  with sb evolves_length [OF sb] contains_evolves [OF sb, of T] assms(1)
  show ?thesis by (simp add: evolves_def)
qed

theorem fallback_keeps_bindings_witness:
  "\<not> contains (add_singleton 1 (Injector ())) 0 \<and>
   fst (get needs_one 1 0 (add_singleton 1 (Injector ()))) = Inr (Some 1) \<and>
   m_Registrations (snd (get needs_one 1 0 (add_singleton 1 (Injector ()))))
     = m_Registrations (add_singleton 1 (Injector ())) \<and>
   \<not> contains (snd (get needs_one 1 0 (add_singleton 1 (Injector ())))) 0"
proof -
  have h: "\<not> contains (add_singleton 1 (Injector ())) 0"
    by (simp add: add_defs contains_push_back contains_Injector)
  have r: "fst (get needs_one 1 0 (add_singleton 1 (Injector ()))) = Inr (Some 1)"
    by (simp add: retrieval_defs add_defs needs_one_def)
  from fallback_keeps_bindings [OF h prod.collapse [symmetric]] h r show ?thesis by simp
qed


subsection \<open>C9: the wrapper overloads\<close>

text \<open>
  C9. The shared-handle half holds: \<^verbatim>\<open>get<std::shared_ptr<C>>\<close> selects the second overload,
  which returns \<^verbatim>\<open>get<C>()\<close>. The const-reference half does not: the condition of the third
  overload is false for every \<open>T\<close>, so the overload never takes part; for \<^verbatim>\<open>get<const C&>()\<close>
  the only overload left is the first, with \<open>T\<close> the reference type itself, not \<open>C\<close> (its return
  type \<^verbatim>\<open>std::shared_ptr<const C&>\<close> cannot be instantiated, so the call does not compile); and
  the body of the third overload asks for the trait class
  \<^verbatim>\<open>std::remove_reference<std::remove_const<T>>\<close>, not for \<open>C\<close>.
\<close>

theorem get_const_reference_not_delegated:
  "viable (Lvalue_reference (Const_of (Class_type 0))) = [Overload_plain] \<and>
   requested Overload_plain (Lvalue_reference (Const_of (Class_type 0)))
     = Some (Lvalue_reference (Const_of (Class_type 0))) \<and>
   (\<forall>T. Overload_const_ref \<notin> set (viable T)) \<and>
   requested Overload_const_ref (Lvalue_reference (Const_of (Class_type 0)))
     = Some (Remove_reference (Remove_const (Lvalue_reference (Const_of (Class_type 0))))) \<and>
   viable (Shared_ptr (Class_type 0)) = [Overload_shared_ptr] \<and>
   requested Overload_shared_ptr (Shared_ptr (Class_type 0)) = Some (Class_type 0) \<and>
   get_shared C n T s = get C n T s"
  by (simp add: viable_def get_shared_def)

end
